(* ===== verification/Prelude.thy ===== *)
theory Prelude
  imports Main "HOL-Library.Word"
begin

unbundle bit_operations_syntax

text \<open>
  Shared vocabulary of the firmware development: bytes and C strings, big-endian
  words, checked copies into fixed buffers, and the few C library routines that
  several components call (\<open>strlen\<close>, \<open>strstr\<close>, \<open>snprintf\<close> of one string, decimal
  printing). Every component theory imports this one.

  Conventions. A \<open>uint8_t\<close> is an \<open>8 word\<close>, a \<open>char\<close> is HOL's \<open>char\<close> (one byte), a
  fixed \<open>char[n]\<close> buffer is a list of length \<open>n\<close>, and a C string is the list of its
  characters before the terminating NUL. A \<open>size_t\<close> that counts bytes of an object in
  memory is a \<open>nat\<close>; integers whose wrap-around the code depends on keep their width.
\<close>

named_theorems firmware_simps \<open>unfolding facts of the protocol layer\<close>

type_synonym byte = "8 word"

type_synonym u32 = "32 word"

type_synonym u64 = "64 word"

section \<open>Bytes, characters and C strings\<close>

abbreviation NUL :: char where
  "NUL \<equiv> CHR 0x00"

definition byte_of_char :: "char \<Rightarrow> byte" where
  "byte_of_char c = word_of_nat (of_char c)"

definition char_of_byte :: "byte \<Rightarrow> char" where
  "char_of_byte b = char_of (unat b)"

definition bytes_of_string :: "string \<Rightarrow> byte list" where
  "bytes_of_string s = map byte_of_char s"

definition string_of_bytes :: "byte list \<Rightarrow> string" where
  "string_of_bytes bs = map char_of_byte bs"

text \<open>The C string that starts at the beginning of a buffer: everything before the first NUL.\<close>

definition cstr :: "char list \<Rightarrow> string" where
  "cstr buf = takeWhile (\<lambda>c. c \<noteq> NUL) buf"

definition nul_free :: "string \<Rightarrow> bool" where
  "nul_free s \<longleftrightarrow> NUL \<notin> set s"

text \<open>A buffer holds a terminated C string when one of its bytes is NUL.\<close>

definition terminated :: "char list \<Rightarrow> bool" where
  "terminated buf \<longleftrightarrow> NUL \<in> set buf"

text \<open>\<open>*p\<close> for a pointer into a C string: the terminator past the last character.\<close>

definition deref :: "string \<Rightarrow> char" where
  "deref p = (case p of [] \<Rightarrow> NUL | c # _ \<Rightarrow> c)"

lemma unat_byte_of_char: "unat (byte_of_char c) = of_char c"
proof -
  have "(of_char c :: nat) < 256"
    using of_char_of [of "of_char c :: nat"] by (simp add: mod_less_divisor)
  then show ?thesis
    by (simp add: byte_of_char_def unsigned_of_nat take_bit_nat_eq_self)
qed

lemma char_of_byte_of_char [simp]: "char_of_byte (byte_of_char c) = c"
  by (simp add: char_of_byte_def unat_byte_of_char)

lemma byte_of_char_of_byte [simp]: "byte_of_char (char_of_byte b) = b"
proof -
  have "unat b < 256"
    using unsigned_less [of b] by simp
  then have "unat (byte_of_char (char_of_byte b)) = unat b"
    by (simp add: unat_byte_of_char char_of_byte_def)
  then show ?thesis
    by (simp only: word_unat_eq_iff)
qed

lemma string_of_bytes_of_string [simp]: "string_of_bytes (bytes_of_string s) = s"
  by (simp add: string_of_bytes_def bytes_of_string_def comp_def)

lemma bytes_of_string_of_bytes [simp]: "bytes_of_string (string_of_bytes bs) = bs"
  by (simp add: string_of_bytes_def bytes_of_string_def comp_def)

lemma length_bytes_of_string [simp]: "length (bytes_of_string s) = length s"
  by (simp add: bytes_of_string_def)

lemma length_string_of_bytes [simp]: "length (string_of_bytes bs) = length bs"
  by (simp add: string_of_bytes_def)

lemma cstr_append_NUL [simp]: "nul_free s \<Longrightarrow> cstr (s @ NUL # rest) = s"
  by (simp add: cstr_def nul_free_def takeWhile_append takeWhile_eq_all_conv [THEN iffD2])

lemma cstr_nul_free [simp]: "nul_free s \<Longrightarrow> cstr s = s"
  by (auto simp: cstr_def nul_free_def takeWhile_eq_all_conv)

lemma nul_free_cstr [simp]: "nul_free (cstr buf)"
  by (auto simp: cstr_def nul_free_def dest: set_takeWhileD)

lemma nul_free_Nil [simp]: "nul_free []"
  by (simp add: nul_free_def)

lemma nul_free_Cons [simp]: "nul_free (c # s) \<longleftrightarrow> c \<noteq> NUL \<and> nul_free s"
  by (auto simp: nul_free_def)

lemma nul_free_append [simp]: "nul_free (s @ t) \<longleftrightarrow> nul_free s \<and> nul_free t"
  by (auto simp: nul_free_def)

lemma cstr_length_less: "terminated buf \<Longrightarrow> length (cstr buf) < length buf"
  unfolding cstr_def terminated_def by (induction buf) auto

lemma deref_simps [simp]: "deref [] = NUL" "deref (c # p) = c"
  by (simp_all add: deref_def)

section \<open>Big-endian integers\<close>

text \<open>
  The four bytes \<open>(uint8_t)(v >> 24), (uint8_t)(v >> 16), (uint8_t)(v >> 8), (uint8_t)v\<close>
  of a \<open>size_t\<close>, and the value read back by shifting the bytes into place.
\<close>

definition be32 :: "nat \<Rightarrow> byte list" where
  "be32 v = [word_of_nat (drop_bit 24 v), word_of_nat (drop_bit 16 v),
             word_of_nat (drop_bit 8 v), word_of_nat v]"

definition read_be32 :: "byte \<Rightarrow> byte \<Rightarrow> byte \<Rightarrow> byte \<Rightarrow> nat" where
  "read_be32 b0 b1 b2 b3 =
     push_bit 24 (unat b0) OR push_bit 16 (unat b1) OR push_bit 8 (unat b2) OR unat b3"

lemma length_be32 [simp]: "length (be32 v) = 4"
  by (simp add: be32_def)

lemma be32_small: "v < 256 \<Longrightarrow> be32 v = [0, 0, 0, word_of_nat v]"
  by (simp add: be32_def drop_bit_nat_def)

lemma read_be32_be32:
  assumes "v < 2 ^ 32"
  shows "read_be32 (word_of_nat (drop_bit 24 v)) (word_of_nat (drop_bit 16 v))
           (word_of_nat (drop_bit 8 v)) (word_of_nat v) = v"
proof -
  have v: "take_bit 32 v = v"
    using assms by (simp add: take_bit_nat_eq_self)
  have lt: "m < 32" if "bit v m" for m
    using that v by (metis bit_take_bit_iff)
  show ?thesis
    unfolding read_be32_def
  proof (rule bit_eqI)
    fix m
    show "bit (push_bit 24 (unat (word_of_nat (drop_bit 24 v) :: byte)) OR
               push_bit 16 (unat (word_of_nat (drop_bit 16 v) :: byte)) OR
               push_bit 8 (unat (word_of_nat (drop_bit 8 v) :: byte)) OR
               unat (word_of_nat v :: byte)) m \<longleftrightarrow> bit v m"
      using lt [of m]
      by (cases "m < 8"; cases "m < 16"; cases "m < 24")
        (auto simp: unsigned_of_nat bit_simps)
  qed
qed

lemma byte_bit_less: "bit (b :: byte) n \<Longrightarrow> n < 8"
  using bit_imp_le_length [of b n] by simp

lemma byte_bit_ge: "8 \<le> n \<Longrightarrow> \<not> bit (b :: byte) n"
  using byte_bit_less [of b n] by auto

lemma read_be32_less: "read_be32 b0 b1 b2 b3 < 2 ^ 32"
proof -
  have "m < 32" if "bit (read_be32 b0 b1 b2 b3) m" for m
    using that by (auto simp: read_be32_def bit_simps dest: byte_bit_less)
  then have "take_bit 32 (read_be32 b0 b1 b2 b3) = read_be32 b0 b1 b2 b3"
    by (intro bit_eqI) (auto simp: bit_simps)
  then show ?thesis
    by (simp only: take_bit_nat_eq_self_iff)
qed

lemma be32_read_be32 [simp]: "be32 (read_be32 b0 b1 b2 b3) = [b0, b1, b2, b3]"
  unfolding be32_def read_be32_def
  by (auto intro!: bit_word_eqI simp: bit_simps byte_bit_ge)

text \<open>The list form of the two directions: what a header's length bytes decode to.\<close>

lemma be32_Cons_eq:
  "be32 v @ xs = b0 # b1 # b2 # b3 # ys \<longleftrightarrow> be32 v = [b0, b1, b2, b3] \<and> xs = ys"
  by (auto simp: be32_def)

lemma read_be32_of_be32: "be32 v = [b0, b1, b2, b3] \<Longrightarrow> v < 2 ^ 32 \<Longrightarrow> read_be32 b0 b1 b2 b3 = v"
  using read_be32_be32 [of v] by (simp add: be32_def)

section \<open>Copies into fixed buffers\<close>

text \<open>
  \<open>memcpy(buf + off, src, n)\<close> into a buffer of \<open>length buf\<close> bytes; \<open>None\<close> is a write past
  the end, undefined behaviour in C.
\<close>

definition memcpy_at :: "'a list \<Rightarrow> nat \<Rightarrow> 'a list \<Rightarrow> 'a list option" where
  "memcpy_at buf off src =
     (if off + length src \<le> length buf
      then Some (take off buf @ src @ drop (off + length src) buf) else None)"

lemma memcpy_at_length: "memcpy_at buf off src = Some buf' \<Longrightarrow> length buf' = length buf"
  by (auto simp: memcpy_at_def split: if_splits)

lemma memcpy_at_inside:
  "memcpy_at buf off src = Some buf' \<Longrightarrow> take (length src) (drop off buf') = src"
  by (auto simp: memcpy_at_def min_def split: if_splits)

lemma memcpy_at_Some_iff:
  "(\<exists>buf'. memcpy_at buf off src = Some buf') \<longleftrightarrow> off + length src \<le> length buf"
  by (simp add: memcpy_at_def)

section \<open>C library routines\<close>

text \<open>\<open>strstr\<close>: the suffix of the haystack at the first occurrence of the needle.\<close>

fun strstr :: "string \<Rightarrow> string \<Rightarrow> string option" where
  "strstr [] needle = (if needle = [] then Some [] else None)"
| "strstr (c # s) needle =
     (if take (length needle) (c # s) = needle then Some (c # s) else strstr s needle)"

text \<open>
  \<open>snprintf(out, cap, "%s", s)\<close> where \<open>cap\<close> is the length of the buffer: at most \<open>cap - 1\<close>
  characters and the terminator; the bytes behind it keep their old contents.
\<close>

definition snprintf_str :: "char list \<Rightarrow> string \<Rightarrow> char list" where
  "snprintf_str out s =
     (if out = [] then []
      else take (length out - 1) s @ NUL # drop (Suc (min (length out - 1) (length s))) out)"

text \<open>The dash of the messages, in UTF-8.\<close>

definition em_dash :: string where
  "em_dash = [CHR 0xE2, CHR 0x80, CHR 0x94]"

text \<open>Decimal digits, as \<open>%u\<close> and \<open>%zu\<close> print them.\<close>

definition digit_char :: "nat \<Rightarrow> char" where
  "digit_char d = char_of (48 + d)"

fun decimal :: "nat \<Rightarrow> string" where
  "decimal n = (if n < 10 then [digit_char n] else decimal (n div 10) @ [digit_char (n mod 10)])"

declare decimal.simps [simp del]

definition code :: "char \<Rightarrow> nat" where
  "code c = of_char c"

definition is_digit :: "char \<Rightarrow> bool" where
  "is_digit c \<longleftrightarrow> 0x30 \<le> code c \<and> code c \<le> 0x39"

lemma is_digit_digit_char: "d < 10 \<Longrightarrow> is_digit (digit_char d)"
  by (simp add: is_digit_def code_def digit_char_def)

lemma decimal_digits: "list_all is_digit (decimal n)"
proof (induction n rule: decimal.induct)
  case (1 n)
  then show ?case
    by (subst decimal.simps) (simp add: is_digit_digit_char)
qed

lemma decimal_hd: "\<exists>c s. decimal n = c # s \<and> is_digit c"
  using decimal_digits [of n] by (cases "decimal n") (auto simp: decimal.simps [of n] split: if_splits)

lemma list_all_nul_free: "list_all P k \<Longrightarrow> \<not> P NUL \<Longrightarrow> nul_free k"
  by (induction k) auto

lemma is_digit_NUL [simp]: "\<not> is_digit NUL"
  by (simp add: is_digit_def code_def)

lemma decimal_length: "n < 10 ^ Suc k \<Longrightarrow> length (decimal n) \<le> Suc k"
proof (induction k arbitrary: n)
  case 0
  then show ?case by (subst decimal.simps) simp
next
  case (Suc k)
  then have "n div 10 < 10 ^ Suc k" by (simp add: less_mult_imp_div_less)
  then show ?case using Suc.IH [of "n div 10"] by (subst decimal.simps) simp
qed

lemma nul_free_decimal: "nul_free (decimal n)"
  by (rule list_all_nul_free [OF decimal_digits is_digit_NUL])

lemma cstr_snprintf_str:
  assumes "nul_free s" and "out \<noteq> []"
  shows "cstr (snprintf_str out s) = take (length out - 1) s \<and> length (snprintf_str out s) = length out"
proof -
  have "nul_free (take (length out - 1) s)"
    using assms(1) by (auto simp: nul_free_def dest: in_set_takeD)
  moreover have "1 \<le> length out" using assms(2) by (cases out) auto
  ultimately show ?thesis using assms(2) by (auto simp: snprintf_str_def)
qed

lemma strstr_sound: "strstr s needle = Some p \<Longrightarrow> \<exists>pre post. s = pre @ p \<and> p = needle @ post"
proof (induction s needle rule: strstr.induct)
  case (1 needle)
  then show ?case by (auto split: if_splits)
next
  case (2 c s needle)
  show ?case
  proof (cases "take (length needle) (c # s) = needle")
    case True
    then have "c # s = needle @ drop (length needle) (c # s)"
      by (metis append_take_drop_id)
    moreover from True "2.prems" have "p = c # s" by simp
    ultimately show ?thesis by (metis append_Nil)
  next
    case False
    with "2.prems" "2.IH" obtain pre post where "s = pre @ p" and "p = needle @ post"
      by auto
    then show ?thesis by (metis append_Cons)
  qed
qed

end
