(* ===== verification/Sha256.thy ===== *)
theory Sha256
  imports Prelude
begin

text \<open>
  The portable SHA-256 of \<open>components/protocol/src/sha256.c\<close>: the block transform, the
  routine that hashes full blocks straight from the input and pads only the tail, and the
  hex printer. A reference definition in the style of FIPS 180-4 (pad the whole message,
  cut it into 64-byte blocks, fold the compression function with a recursive message
  schedule) stands beside it, and the routine is proved equal to it.
\<close>

section \<open>The C routine\<close>


text \<open>\<open>rotr\<close> is \<open>(x >> n) | (x << (32 - n))\<close>, used with \<open>0 < n < 32\<close> only.\<close>

definition rotr :: "u32 \<Rightarrow> nat \<Rightarrow> u32" where
  "rotr x n = drop_bit n x OR push_bit (32 - n) x"

text \<open>The table, row by row as the source prints it.\<close>

definition K :: "u32 list" where
  "K = concat [
    [0x428a2f98, 0x71374491, 0xb5c0fbcf, 0xe9b5dba5, 0x3956c25b, 0x59f111f1],
    [0x923f82a4, 0xab1c5ed5, 0xd807aa98, 0x12835b01, 0x243185be, 0x550c7dc3],
    [0x72be5d74, 0x80deb1fe, 0x9bdc06a7, 0xc19bf174, 0xe49b69c1, 0xefbe4786],
    [0x0fc19dc6, 0x240ca1cc, 0x2de92c6f, 0x4a7484aa, 0x5cb0a9dc, 0x76f988da],
    [0x983e5152, 0xa831c66d, 0xb00327c8, 0xbf597fc7, 0xc6e00bf3, 0xd5a79147],
    [0x06ca6351, 0x14292967, 0x27b70a85, 0x2e1b2138, 0x4d2c6dfc, 0x53380d13],
    [0x650a7354, 0x766a0abb, 0x81c2c92e, 0x92722c85, 0xa2bfe8a1, 0xa81a664b],
    [0xc24b8b70, 0xc76c51a3, 0xd192e819, 0xd6990624, 0xf40e3585, 0x106aa070],
    [0x19a4c116, 0x1e376c08, 0x2748774c, 0x34b0bcb5, 0x391c0cb3, 0x4ed8aa4a],
    [0x5b9cca4f, 0x682e6ff3, 0x748f82ee, 0x78a5636f, 0x84c87814, 0x8cc70208],
    [0x90befffa, 0xa4506ceb, 0xbef9a3f7, 0xc67178f2]]"

text \<open>
  \<open>transform\<close>, split at its three loops. \<open>w\<close> is the 64-entry array as the list of the
  entries written so far; the working variables are the tuple \<open>(a, b, c, d, e, f, g, hh)\<close>.
\<close>

definition load_block :: "byte list \<Rightarrow> u32 list" where
  "load_block block = map (\<lambda>i.
     push_bit 24 (ucast (block ! (i * 4))) OR push_bit 16 (ucast (block ! (i * 4 + 1))) OR
     push_bit 8 (ucast (block ! (i * 4 + 2))) OR ucast (block ! (i * 4 + 3))) [0..<16]"

definition extend_w :: "nat \<Rightarrow> u32 list \<Rightarrow> u32 list" where
  "extend_w i w =
     (let s0 = rotr (w ! (i - 15)) 7 XOR rotr (w ! (i - 15)) 18 XOR drop_bit 3 (w ! (i - 15));
          s1 = rotr (w ! (i - 2)) 17 XOR rotr (w ! (i - 2)) 19 XOR drop_bit 10 (w ! (i - 2))
      in w @ [w ! (i - 16) + s0 + w ! (i - 7) + s1])"

definition schedule :: "byte list \<Rightarrow> u32 list" where
  "schedule block = fold extend_w [16..<64] (load_block block)"

type_synonym vars = "u32 \<times> u32 \<times> u32 \<times> u32 \<times> u32 \<times> u32 \<times> u32 \<times> u32"

fun round_step :: "u32 \<Rightarrow> u32 \<Rightarrow> vars \<Rightarrow> vars" where
  "round_step k wi (a, b, c, d, e, f, g, hh) =
     (let S1 = rotr e 6 XOR rotr e 11 XOR rotr e 25;
          ch = (e AND f) XOR (NOT e AND g);
          t1 = hh + S1 + ch + k + wi;
          S0 = rotr a 2 XOR rotr a 13 XOR rotr a 22;
          maj = (a AND b) XOR (a AND c) XOR (b AND c);
          t2 = S0 + maj
      in (t1 + t2, a, b, c, d + t1, e, f, g))"

fun add_vars :: "vars \<Rightarrow> vars \<Rightarrow> vars" where
  "add_vars (h0, h1, h2, h3, h4, h5, h6, h7) (a, b, c, d, e, f, g, hh) =
     (h0 + a, h1 + b, h2 + c, h3 + d, h4 + e, h5 + f, h6 + g, h7 + hh)"

definition transform :: "vars \<Rightarrow> byte list \<Rightarrow> vars" where
  "transform h block =
     (let w = schedule block
      in add_vars h (fold (\<lambda>i v. round_step (K ! i) (w ! i) v) [0..<64] h))"

definition H0 :: vars where
  "H0 = (0x6a09e667, 0xbb67ae85, 0x3c6ef372, 0xa54ff53a,
         0x510e527f, 0x9b05688c, 0x1f83d9ab, 0x5be0cd19)"

text \<open>
  The final block(s): \<open>rem\<close> message bytes, \<open>0x80\<close>, zeros, and the 64-bit bit count written
  backwards from the last byte. The array has 128 bytes; the model holds the \<open>pad_to\<close> bytes
  of it that are written and read. \<open>bits\<close> is a \<open>uint64_t\<close> product, so it wraps.
\<close>

definition pad_to :: "nat \<Rightarrow> nat" where
  "pad_to rem = (if rem < 56 then 64 else 128)"

definition tail_bytes :: "byte list \<Rightarrow> nat \<Rightarrow> byte list" where
  "tail_bytes remainder len =
     (let rem = length remainder;
          bits = (of_nat len :: 64 word) * 8;
          t = remainder @ [0x80] @ replicate (pad_to rem - rem - 1) 0
      in fold (\<lambda>i t. t[pad_to rem - 1 - i := ucast (drop_bit (8 * i) bits)]) [0..<8] t)"

definition be_word :: "u32 \<Rightarrow> byte list" where
  "be_word x = [ucast (drop_bit 24 x), ucast (drop_bit 16 x), ucast (drop_bit 8 x), ucast x]"

fun digest_bytes :: "vars \<Rightarrow> byte list" where
  "digest_bytes (a, b, c, d, e, f, g, hh) =
     be_word a @ be_word b @ be_word c @ be_word d @
     be_word e @ be_word f @ be_word g @ be_word hh"

definition sd_sha256 :: "byte list \<Rightarrow> nat \<Rightarrow> byte list" where
  "sd_sha256 data len =
     (let full = len div 64;
          h = fold (\<lambda>i h. transform h (take 64 (drop (i * 64) data))) [0..<full] H0;
          rem = len - full * 64;
          tail = tail_bytes (take rem (drop (full * 64) data)) len;
          h = transform h (take 64 tail);
          h = (if pad_to rem = 128 then transform h (take 64 (drop 64 tail)) else h)
      in digest_bytes h)"

definition hex_digits :: string where
  "hex_digits = ''0123456789abcdef''"

text \<open>The 64 characters before the terminator.\<close>

definition sd_sha256_hex :: "byte list \<Rightarrow> nat \<Rightarrow> string" where
  "sd_sha256_hex data len =
     concat (map (\<lambda>b. [hex_digits ! unat (drop_bit 4 b), hex_digits ! unat (b AND 0x0f)])
       (sd_sha256 data len))"

section \<open>Reference: FIPS 180-4\<close>

text \<open>
  The standard's functions over 32-bit words, with its rotation taken from the word
  library, its message schedule by recursion on \<open>t\<close>, and its padding of the whole message.
\<close>

definition fips_Ch :: "u32 \<Rightarrow> u32 \<Rightarrow> u32 \<Rightarrow> u32" where
  "fips_Ch x y z = (x AND y) XOR (NOT x AND z)"

definition fips_Maj :: "u32 \<Rightarrow> u32 \<Rightarrow> u32 \<Rightarrow> u32" where
  "fips_Maj x y z = (x AND y) XOR (x AND z) XOR (y AND z)"

definition fips_Sigma0 :: "u32 \<Rightarrow> u32" where
  "fips_Sigma0 x = word_rotr 2 x XOR word_rotr 13 x XOR word_rotr 22 x"

definition fips_Sigma1 :: "u32 \<Rightarrow> u32" where
  "fips_Sigma1 x = word_rotr 6 x XOR word_rotr 11 x XOR word_rotr 25 x"

definition fips_sigma0 :: "u32 \<Rightarrow> u32" where
  "fips_sigma0 x = word_rotr 7 x XOR word_rotr 18 x XOR drop_bit 3 x"

definition fips_sigma1 :: "u32 \<Rightarrow> u32" where
  "fips_sigma1 x = word_rotr 17 x XOR word_rotr 19 x XOR drop_bit 10 x"

text \<open>The big-endian words of a block, and the schedule \<open>W 0, ..., W 63\<close> they start.\<close>

fun be_words :: "byte list \<Rightarrow> u32 list" where
  "be_words (b0 # b1 # b2 # b3 # bs) =
     (push_bit 24 (ucast b0) OR push_bit 16 (ucast b1) OR push_bit 8 (ucast b2) OR ucast b3)
       # be_words bs"
| "be_words _ = []"

fun fips_W :: "u32 list \<Rightarrow> nat \<Rightarrow> u32" where
  "fips_W M t =
     (if t < 16 then M ! t
      else fips_sigma1 (fips_W M (t - 2)) + fips_W M (t - 7) +
           fips_sigma0 (fips_W M (t - 15)) + fips_W M (t - 16))"

declare fips_W.simps [simp del]

fun fips_round :: "u32 list \<Rightarrow> nat \<Rightarrow> vars \<Rightarrow> vars" where
  "fips_round M t (a, b, c, d, e, f, g, h) =
     (let T1 = h + fips_Sigma1 e + fips_Ch e f g + K ! t + fips_W M t;
          T2 = fips_Sigma0 a + fips_Maj a b c
      in (T1 + T2, a, b, c, d + T1, e, f, g))"

definition fips_compress :: "vars \<Rightarrow> byte list \<Rightarrow> vars" where
  "fips_compress h block = add_vars h (fold (fips_round (be_words block)) [0..<64] h)"

text \<open>Padding: a one bit, the least number of zero bytes, and the bit length in 64 bits.\<close>

definition be64 :: "nat \<Rightarrow> byte list" where
  "be64 n = map (\<lambda>i. word_of_nat (drop_bit (8 * (7 - i)) n)) [0..<8]"

definition fips_pad :: "byte list \<Rightarrow> byte list" where
  "fips_pad m = m @ [0x80] @ replicate (nat ((55 - int (length m)) mod 64)) 0 @ be64 (8 * length m)"

function blocks64 :: "byte list \<Rightarrow> byte list list" where
  "blocks64 m = (if length m < 64 then [] else take 64 m # blocks64 (drop 64 m))"
  by pat_completeness auto
termination
  by (relation "measure length") auto

declare blocks64.simps [simp del]

definition fips_sha256 :: "byte list \<Rightarrow> byte list" where
  "fips_sha256 m = digest_bytes (fold (\<lambda>b h. fips_compress h b) (blocks64 (fips_pad m)) H0)"

section \<open>The transform computes the compression function\<close>

lemma rotr_word_rotr:
  assumes "0 < n" and "n < 32"
  shows "rotr x n = word_rotr n x"
proof (rule bit_word_eqI)
  fix m assume "m < LENGTH(32)"
  then have m: "m < 32" by simp
  show "bit (rotr x n) m \<longleftrightarrow> bit (word_rotr n x) m"
  proof (cases "m + n < 32")
    case True
    with assms m show ?thesis
      by (auto simp: rotr_def bit_word_rotr_iff bit_simps add.commute)
  next
    case False
    with assms m have "(n + m) mod 32 = n + m - 32" by (simp add: mod_if)
    moreover from False have "\<not> bit x (n + m)"
      using bit_imp_le_length [of x "n + m"] by (auto simp: add.commute)
    moreover from False have "32 - n \<le> m" by simp
    ultimately show ?thesis using assms m
      by (simp add: rotr_def bit_word_rotr_iff bit_simps add.commute)
  qed
qed

lemmas rotr_rotates =
  rotr_word_rotr [of 2, simplified] rotr_word_rotr [of 6, simplified]
  rotr_word_rotr [of 7, simplified] rotr_word_rotr [of 11, simplified]
  rotr_word_rotr [of 13, simplified] rotr_word_rotr [of 17, simplified]
  rotr_word_rotr [of 18, simplified] rotr_word_rotr [of 19, simplified]
  rotr_word_rotr [of 22, simplified] rotr_word_rotr [of 25, simplified]

lemma length_load_block [simp]: "length (load_block block) = 16"
  by (simp add: load_block_def)

lemma be_words_nth:
  "4 * i + 3 < length bs \<Longrightarrow> be_words bs ! i =
     push_bit 24 (ucast (bs ! (i * 4))) OR push_bit 16 (ucast (bs ! (i * 4 + 1))) OR
     push_bit 8 (ucast (bs ! (i * 4 + 2))) OR ucast (bs ! (i * 4 + 3))"
proof (induction bs arbitrary: i rule: be_words.induct)
  case (1 b0 b1 b2 b3 bs)
  then show ?case by (cases i) (simp_all add: numeral_eq_Suc)
qed auto

lemma length_be_words: "length (be_words bs) = length bs div 4"
  by (induction bs rule: be_words.induct) auto

lemma load_block_be_words: "length block = 64 \<Longrightarrow> load_block block = be_words block"
  by (rule nth_equalityI)
    (auto simp: load_block_def be_words_nth length_be_words)

lemma schedule_prefix:
  "16 \<le> n \<Longrightarrow> length M = 16 \<Longrightarrow>
     fold extend_w [16..<n] M = map (fips_W M) [0..<n]"
proof (induction n rule: nat_induct_at_least)
  case base
  then show ?case
    by (auto intro!: nth_equalityI simp: fips_W.simps)
next
  case (Suc n)
  have w: "map (fips_W M) [0..<n] ! j = fips_W M j" if "j < n" for j
    using that by simp
  have "extend_w n (map (fips_W M) [0..<n]) = map (fips_W M) [0..<n] @ [fips_W M n]"
    using Suc.hyps
    by (subst fips_W.simps)
      (simp add: extend_w_def w Let_def rotr_rotates fips_sigma0_def fips_sigma1_def algebra_simps)
  with Suc show ?case by simp
qed

lemma schedule_W:
  assumes "length block = 64" and "t < 64"
  shows "schedule block ! t = fips_W (be_words block) t"
proof -
  have "schedule block = map (fips_W (be_words block)) [0..<64]"
    unfolding schedule_def load_block_be_words [OF assms(1)]
    by (rule schedule_prefix) (simp_all add: length_be_words assms)
  moreover have "map (fips_W (be_words block)) [0..<64] ! t = fips_W (be_words block) t"
    using nth_map_upt [of t 64 0 "fips_W (be_words block)"] assms(2) by (simp only: diff_zero add_0)
  ultimately show ?thesis by simp
qed

lemma round_step_fips:
  "wt = fips_W M t \<Longrightarrow> round_step (K ! t) wt v = fips_round M t v"
  by (cases "(K ! t, wt, v)" rule: round_step.cases)
    (simp add: Let_def rotr_rotates fips_Sigma0_def fips_Sigma1_def fips_Ch_def fips_Maj_def)

lemma transform_compress:
  assumes "length block = 64"
  shows "transform h block = fips_compress h block"
proof -
  have "fold (\<lambda>i v. round_step (K ! i) (schedule block ! i) v) [0..<64] v =
      fold (fips_round (be_words block)) [0..<64] v" for v
    by (rule fold_cong) (auto simp: round_step_fips schedule_W assms)
  then show ?thesis
    by (simp add: transform_def fips_compress_def Let_def)
qed

section \<open>Padding only the tail\<close>

lemma length_pad_to: "rem < 64 \<Longrightarrow> rem + 9 \<le> pad_to rem"
  by (simp add: pad_to_def)

text \<open>The loop that writes the bit count backwards from the last byte.\<close>

lemma fold_update_end:
  assumes "k \<le> length t"
  shows "fold (\<lambda>i t'. t'[length t - 1 - i := f i]) [0..<k] t =
    take (length t - k) t @ map (\<lambda>i. f (k - 1 - i)) [0..<k]"
  using assms
proof (induction k)
  case (Suc k)
  then have k: "length t - Suc k < length t" by simp
  have "take (length t - k) t = take (length t - Suc k) t @ [t ! (length t - Suc k)]"
    using take_Suc_conv_app_nth [OF k] Suc.prems by (simp add: Suc_diff_Suc)
  moreover have "map (\<lambda>i. f (Suc k - 1 - i)) [0..<Suc k] = f k # map (\<lambda>i. f (k - 1 - i)) [0..<k]"
    by (simp add: upt_conv_Cons map_Suc_upt [symmetric] comp_def del: upt_Suc)
  ultimately show ?case
    using Suc by (simp add: list_update_append del: map_Suc_upt)
qed simp

lemma word_bits_be64:
  "ucast (drop_bit (8 * i) ((of_nat len :: 64 word) * 8)) =
     (word_of_nat (drop_bit (8 * i) (8 * len)) :: byte)" if "i < 8"
proof -
  have eq: "(of_nat len :: 64 word) * 8 = word_of_nat (8 * len)"
    by (simp add: mult.commute)
  show ?thesis
    unfolding eq using that
    by (auto intro!: bit_word_eqI simp: bit_simps simp del: of_nat_mult)
qed

lemma tail_bytes_eq:
  assumes "length r < 64"
  shows "tail_bytes r len =
    r @ [0x80] @ replicate (pad_to (length r) - length r - 9) 0 @ be64 (8 * len)"
proof -
  let ?n = "pad_to (length r)"
  let ?t = "r @ [0x80] @ replicate (?n - length r - 1) (0::byte)"
  let ?f = "\<lambda>i. ucast (drop_bit (8 * i) ((of_nat len :: 64 word) * 8)) :: byte"
  have n: "length ?t = ?n" and "length r + 9 \<le> ?n"
    using length_pad_to [OF assms] by simp_all
  have "?n - length r - 1 = (?n - length r - 9) + 8"
    using \<open>length r + 9 \<le> ?n\<close> by simp
  then have t: "?t = (r @ [0x80] @ replicate (?n - length r - 9) 0) @ replicate 8 0"
    by (simp only: replicate_add append_assoc)
  have pre: "take (length xs) (xs @ ys) = xs" for xs ys :: "byte list"
    by simp
  have "length (r @ [0x80] @ replicate (?n - length r - 9) (0::byte)) = ?n - 8"
    using \<open>length r + 9 \<le> ?n\<close> by simp
  then have "take (?n - 8) ?t = r @ [0x80] @ replicate (?n - length r - 9) 0"
    unfolding t by (metis pre)
  moreover have "map (\<lambda>i. ?f (8 - 1 - i)) [0..<8] = be64 (8 * len)"
    by (auto simp: be64_def word_bits_be64 simp del: upt_rec_numeral)
  moreover have "tail_bytes r len = take (?n - 8) ?t @ map (\<lambda>i. ?f (8 - 1 - i)) [0..<8]"
    using fold_update_end [of 8 ?t ?f] \<open>length r + 9 \<le> ?n\<close>
    by (simp only: tail_bytes_def Let_def n)
  ultimately show ?thesis by simp
qed

lemma fips_pad_tail:
  assumes "length m = 64 * n + length r" and "length r < 64" and "drop (64 * n) m = r"
  shows "fips_pad m = take (64 * n) m @ tail_bytes r (length m)"
proof -
  have "nat ((55 - int (length m)) mod 64) = pad_to (length r) - length r - 9"
  proof -
    have "55 - int (length m) = 55 - int (length r) + 64 * (- int n)"
      using assms(1) by simp
    then have "(55 - int (length m)) mod 64 = (55 - int (length r)) mod 64"
      by (simp only: mod_mult_self2)
    also have "\<dots> = int (pad_to (length r) - length r - 9)"
    proof (cases "length r < 56")
      case True
      then show ?thesis by (simp add: pad_to_def of_nat_diff)
    next
      case False
      then have "(55 - int (length r)) mod 64 = (55 - int (length r) + 64) mod 64"
        by (simp only: mod_add_self2)
      with False assms(2) show ?thesis by (simp add: pad_to_def of_nat_diff)
    qed
    finally show ?thesis by simp
  qed
  moreover have "m = take (64 * n) m @ r"
    using append_take_drop_id [of "64 * n" m] assms(3) by simp
  ultimately show ?thesis
    using assms(2) unfolding fips_pad_def by (simp add: tail_bytes_eq)
qed

section \<open>The routine computes the standard's digest\<close>

lemma blocks64_Cons: "length b = 64 \<Longrightarrow> blocks64 (b @ rest) = b # blocks64 rest"
  by (subst blocks64.simps) simp

lemma blocks64_Nil [simp]: "blocks64 [] = []"
  by (simp add: blocks64.simps)

text \<open>The first loop: one transform per full block, read in place.\<close>

lemma fold_full_blocks:
  assumes "64 * n \<le> length m"
  shows "fold (\<lambda>b h. fips_compress h b) (blocks64 (take (64 * n) m @ rest)) h =
    fold (\<lambda>b h. fips_compress h b) (blocks64 rest)
      (fold (\<lambda>i h. transform h (take 64 (drop (i * 64) m))) [0..<n] h)"
  using assms
proof (induction n arbitrary: rest)
  case (Suc n)
  let ?b = "take 64 (drop (n * 64) m)"
  have b: "length ?b = 64"
    using Suc.prems by simp
  have "take (64 * Suc n) m = take (64 * n) m @ ?b"
    by (simp only: mult_Suc_right add.commute [of 64] take_add mult.commute [of n 64])
  then show ?case
    using Suc.IH [of "?b @ rest"] Suc.prems
    by (simp add: blocks64_Cons transform_compress)
qed simp

lemma blocks64_tail:
  assumes "length t = 64 \<or> length t = 128"
  shows "fold (\<lambda>b h. fips_compress h b) (blocks64 t) h =
    (if length t = 128 then transform (transform h (take 64 t)) (take 64 (drop 64 t))
     else transform h (take 64 t))"
proof (cases "length t = 64")
  case True
  then show ?thesis
    using blocks64_Cons [of t "[]"] by (simp add: transform_compress)
next
  case False
  with assms have t: "length t = 128" by simp
  then have "blocks64 t = [take 64 t, drop 64 t]"
    by (simp add: blocks64.simps [of t] blocks64.simps [of "drop 64 t"] blocks64.simps [of "[]"])
  with t show ?thesis by (simp add: transform_compress)
qed

text \<open>
  C1: \<open>sd_sha256\<close>, which hashes full blocks in place and pads one or two tail blocks, returns
  the FIPS 180-4 digest of the message, for every message.
\<close>

theorem sd_sha256_correct: "sd_sha256 data (length data) = fips_sha256 data"
proof -
  define n where "n = length data div 64"
  define r where "r = take (length data - n * 64) (drop (n * 64) data)"
  define t where "t = tail_bytes r (length data)"
  have len: "length data = 64 * n + length r" and r: "length r < 64" "drop (64 * n) data = r"
    by (simp_all add: n_def r_def mult.commute minus_mult_div_eq_mod [symmetric])
  have t64: "length t = pad_to (length r)"
    using length_pad_to [OF r(1)] by (simp add: t_def tail_bytes_eq [OF r(1)] be64_def)
  have rem: "length data - n * 64 = length r"
    using len by simp
  let ?h = "fold (\<lambda>i h. transform h (take 64 (drop (i * 64) data))) [0..<n] H0"
  have "fips_sha256 data = digest_bytes (fold (\<lambda>b h. fips_compress h b) (blocks64 t) ?h)"
    using fold_full_blocks [of n data t H0] len r
    by (simp add: fips_sha256_def fips_pad_tail t_def)
  also have "\<dots> = digest_bytes (if length t = 128
      then transform (transform ?h (take 64 t)) (take 64 (drop 64 t)) else transform ?h (take 64 t))"
    by (subst blocks64_tail) (auto simp: t64 pad_to_def)
  finally show ?thesis
    by (simp add: sd_sha256_def Let_def t64 flip: n_def t_def r_def) (simp add: rem)
qed

lemma length_be_word [simp]: "length (be_word x) = 4"
  by (simp add: be_word_def)

lemma length_digest_bytes [simp]: "length (digest_bytes h) = 32"
  by (cases h rule: digest_bytes.cases) simp

lemma length_sd_sha256 [simp]: "length (sd_sha256 data len) = 32"
  by (simp add: sd_sha256_def Let_def)

lemma length_concat_pairs: "length (concat (map (\<lambda>b. [f b, g b]) bs)) = 2 * length bs"
  by (induction bs) auto

lemma length_sd_sha256_hex [simp]: "length (sd_sha256_hex data len) = 64"
  by (simp add: sd_sha256_hex_def length_concat_pairs)

end
