(* ===== verification/Sha256_Vectors.thy ===== *)
theory Sha256_Vectors
  imports Sha256
begin

unbundle bit_operations_syntax

text \<open>
  The FIPS 180-4 example digest of the three bytes \<open>abc\<close>, evaluated by the simplifier on the
  model of the C routine: the message schedule and the 64 rounds in runs of eight. It pins the
  round-constant table and the initial values, on which the equivalence with the reference
  definition depends only as parameters.
\<close>

section \<open>One block, eight steps at a time\<close>

definition abc_block :: "byte list" where
  "abc_block = [0x61, 0x62, 0x63, 0x80] @ replicate 52 0 @ [0, 0, 0, 0, 0, 0, 0, 0x18]"

definition abc_schedule :: "u32 list" where
  "abc_schedule = [
    0x61626380, 0x0, 0x0, 0x0, 0x0, 0x0,
    0x0, 0x0, 0x0, 0x0, 0x0, 0x0,
    0x0, 0x0, 0x0, 0x18, 0x61626380, 0xf0000,
    0x7da86405, 0x600003c6, 0x3e9d7b78, 0x183fc00, 0x12dcbfdb, 0xe2e2c38e,
    0xc8215c1a, 0xb73679a2, 0xe5bc3909, 0x32663c5b, 0x9d209d67, 0xec8726cb,
    0x702138a4, 0xd3b7973b, 0x93f5997f, 0x3b68ba73, 0xaff4ffc1, 0xf10a5c62,
    0xa8b3996, 0x72af830a, 0x9409e33e, 0x24641522, 0x9f47bf94, 0xf0a64f5a,
    0x3e246a79, 0x27333ba3, 0xc4763f2, 0x840abf27, 0x7a290d5d, 0x65c43da,
    0xfb3e89cb, 0xcc7617db, 0xb9e66c34, 0xa9993667, 0x84badedd, 0xc21462bc,
    0x1487472c, 0xb20f7a99, 0xef57b9cd, 0xebe6b238, 0x9fe3095e, 0x78bc8d4b,
    0xa43fcf15, 0x668b2ff8, 0xeeaba2cc, 0x12b1edeb]"

lemma abc_load: "load_block abc_block = take 16 abc_schedule"
  by (simp add: abc_block_def abc_schedule_def load_block_def upt_rec nth_append)

lemma abc_w16: "fold extend_w [16, 17, 18, 19, 20, 21, 22, 23] (take 16 abc_schedule) = take 24 abc_schedule"
  by (simp add: abc_schedule_def extend_w_def rotr_def Let_def)

lemma abc_w24: "fold extend_w [24, 25, 26, 27, 28, 29, 30, 31] (take 24 abc_schedule) = take 32 abc_schedule"
  by (simp add: abc_schedule_def extend_w_def rotr_def Let_def)

lemma abc_w32: "fold extend_w [32, 33, 34, 35, 36, 37, 38, 39] (take 32 abc_schedule) = take 40 abc_schedule"
  by (simp add: abc_schedule_def extend_w_def rotr_def Let_def)

lemma abc_w40: "fold extend_w [40, 41, 42, 43, 44, 45, 46, 47] (take 40 abc_schedule) = take 48 abc_schedule"
  by (simp add: abc_schedule_def extend_w_def rotr_def Let_def)

lemma abc_w48: "fold extend_w [48, 49, 50, 51, 52, 53, 54, 55] (take 48 abc_schedule) = take 56 abc_schedule"
  by (simp add: abc_schedule_def extend_w_def rotr_def Let_def)

lemma abc_w56: "fold extend_w [56, 57, 58, 59, 60, 61, 62, 63] (take 56 abc_schedule) = take 64 abc_schedule"
  by (simp add: abc_schedule_def extend_w_def rotr_def Let_def)

lemma abc_r0: "fold (\<lambda>i v. round_step (K ! i) (abc_schedule ! i) v) [0, 1, 2, 3, 4, 5, 6, 7]
    (0x6a09e667, 0xbb67ae85, 0x3c6ef372, 0xa54ff53a, 0x510e527f, 0x9b05688c, 0x1f83d9ab, 0x5be0cd19) =
    (0x85a07b5f, 0xe5030380, 0x2b4209f5, 0x4409a6a, 0xc657a79, 0x9b27a401, 0x714260ad, 0x43ada245)"
  by (simp add: abc_schedule_def K_def rotr_def Let_def)

lemma abc_r8: "fold (\<lambda>i v. round_step (K ! i) (abc_schedule ! i) v) [8, 9, 10, 11, 12, 13, 14, 15]
    (0x85a07b5f, 0xe5030380, 0x2b4209f5, 0x4409a6a, 0xc657a79, 0x9b27a401, 0x714260ad, 0x43ada245) =
    (0xb0fa238e, 0xc0645fde, 0xd932eb16, 0x87912990, 0x7590dcd, 0xb92f20c, 0x745a48de, 0x1e578218)"
  by (simp add: abc_schedule_def K_def rotr_def Let_def)

lemma abc_r16: "fold (\<lambda>i v. round_step (K ! i) (abc_schedule ! i) v) [16, 17, 18, 19, 20, 21, 22, 23]
    (0xb0fa238e, 0xc0645fde, 0xd932eb16, 0x87912990, 0x7590dcd, 0xb92f20c, 0x745a48de, 0x1e578218) =
    (0xc5d53d8d, 0xa7a3623f, 0xc2606d6d, 0x9dc68b63, 0xaa47c347, 0x49f5114a, 0xe1257970, 0x8ada8930)"
  by (simp add: abc_schedule_def K_def rotr_def Let_def)

lemma abc_r24: "fold (\<lambda>i v. round_step (K ! i) (abc_schedule ! i) v) [24, 25, 26, 27, 28, 29, 30, 31]
    (0xc5d53d8d, 0xa7a3623f, 0xc2606d6d, 0x9dc68b63, 0xaa47c347, 0x49f5114a, 0xe1257970, 0x8ada8930) =
    (0x73b33bf5, 0xea992a22, 0xa0060b30, 0x363482c9, 0xba591112, 0x109ab3a, 0xade79437, 0x6112a3b7)"
  by (simp add: abc_schedule_def K_def rotr_def Let_def)

lemma abc_r32: "fold (\<lambda>i v. round_step (K ! i) (abc_schedule ! i) v) [32, 33, 34, 35, 36, 37, 38, 39]
    (0x73b33bf5, 0xea992a22, 0xa0060b30, 0x363482c9, 0xba591112, 0x109ab3a, 0xade79437, 0x6112a3b7) =
    (0x79ea687a, 0x6dc57a8a, 0x34df1604, 0x41a65cb1, 0x1efbc0a0, 0xf0781bc8, 0xa507a53d, 0x772a26b)"
  by (simp add: abc_schedule_def K_def rotr_def Let_def)

lemma abc_r40: "fold (\<lambda>i v. round_step (K ! i) (abc_schedule ! i) v) [40, 41, 42, 43, 44, 45, 46, 47]
    (0x79ea687a, 0x6dc57a8a, 0x34df1604, 0x41a65cb1, 0x1efbc0a0, 0xf0781bc8, 0xa507a53d, 0x772a26b) =
    (0x4172328d, 0xa14c14b0, 0x72ab4b91, 0x26628815, 0xfecf0bc6, 0xd57b94a9, 0xb7755da1, 0xa80f11f0)"
  by (simp add: abc_schedule_def K_def rotr_def Let_def)

lemma abc_r48: "fold (\<lambda>i v. round_step (K ! i) (abc_schedule ! i) v) [48, 49, 50, 51, 52, 53, 54, 55]
    (0x4172328d, 0xa14c14b0, 0x72ab4b91, 0x26628815, 0xfecf0bc6, 0xd57b94a9, 0xb7755da1, 0xa80f11f0) =
    (0x38cc9913, 0x3ec45cdb, 0xf5702fdb, 0x101fd28f, 0x54cb266b, 0xe50e1b4f, 0x9f4787c3, 0x529e7d00)"
  by (simp add: abc_schedule_def K_def rotr_def Let_def)

lemma abc_r56: "fold (\<lambda>i v. round_step (K ! i) (abc_schedule ! i) v) [56, 57, 58, 59, 60, 61, 62, 63]
    (0x38cc9913, 0x3ec45cdb, 0xf5702fdb, 0x101fd28f, 0x54cb266b, 0xe50e1b4f, 0x9f4787c3, 0x529e7d00) =
    (0x506e3058, 0xd39a2165, 0x4d24d6c, 0xb85e2ce9, 0x5ef50f24, 0xfb121210, 0x948d25b6, 0x961f4894)"
  by (simp add: abc_schedule_def K_def rotr_def Let_def)

section \<open>The whole block\<close>

lemma upt_16_64: "[16..<64] =
    [16, 17, 18, 19, 20, 21, 22, 23] @ [24, 25, 26, 27, 28, 29, 30, 31] @
    [32, 33, 34, 35, 36, 37, 38, 39] @ [40, 41, 42, 43, 44, 45, 46, 47] @
    [48, 49, 50, 51, 52, 53, 54, 55] @ [56, 57, 58, 59, 60, 61, 62, 63]"
  by (simp add: upt_rec)

lemma upt_0_64: "[0..<64] =
    [0, 1, 2, 3, 4, 5, 6, 7] @ [8, 9, 10, 11, 12, 13, 14, 15] @ [16..<64]"
  by (simp add: upt_rec)

lemma abc_schedule: "schedule abc_block = abc_schedule"
proof -
  have "take 64 abc_schedule = abc_schedule"
    by (simp add: abc_schedule_def)
  then show ?thesis
    by (simp only: schedule_def upt_16_64 fold_append comp_apply abc_load
        abc_w16 abc_w24 abc_w32 abc_w40 abc_w48 abc_w56)
qed

lemma abc_transform: "transform H0 abc_block =
  (0xba7816bf, 0x8f01cfea, 0x414140de, 0x5dae2223, 0xb00361a3, 0x96177a9c, 0xb410ff61, 0xf20015ad)"
  by (simp only: transform_def Let_def abc_schedule upt_0_64 upt_16_64 fold_append comp_apply H0_def
      abc_r0 abc_r8 abc_r16 abc_r24 abc_r32 abc_r40 abc_r48 abc_r56) simp

lemma abc_tail: "tail_bytes [0x61, 0x62, 0x63] 3 = abc_block"
  by (simp add: tail_bytes_eq pad_to_def abc_block_def be64_def upt_rec)

text \<open>
  The hex digest of \<open>abc\<close> is the one of the standard's example.
\<close>

theorem sd_sha256_hex_abc:
  "sd_sha256_hex [0x61, 0x62, 0x63] 3 =
     ''ba7816bf8f01cfea414140de5dae2223b00361a396177a9cb410ff61f20015ad''"
proof -
  have "sd_sha256 [0x61, 0x62, 0x63] 3 = digest_bytes (transform H0 abc_block)"
    by (simp add: sd_sha256_def Let_def abc_tail pad_to_def) (simp add: abc_block_def)
  then show ?thesis
    by (simp add: sd_sha256_hex_def abc_transform be_word_def hex_digits_def)
qed

end
