(* ===== verification/Core.thy ===== *)
theory Core
  imports Prelude
begin

text \<open>
  The error codes every layer returns (\<open>include/sudonit/error.h\<close>, \<open>src/core/error.c\<close>) and
  the level filter of the logging seam (\<open>src/core/log.c\<close>). The C functions return
  \<open>sd_err_t\<close> and fill out-parameters; the model returns the code together with the values
  of the out-parameters, which callers read only after \<open>SD_OK\<close>.
\<close>

section \<open>Error codes\<close>

datatype sd_err =
    SD_OK
  | SD_ERR_INVALID
  | SD_ERR_IO
  | SD_ERR_NO_MEM
  | SD_ERR_TIMEOUT
  | SD_ERR_AGAIN
  | SD_ERR_UNSUPPORTED

fun sd_strerror :: "sd_err \<Rightarrow> string" where
  "sd_strerror SD_OK = ''ok''"
| "sd_strerror SD_ERR_INVALID = ''invalid argument''"
| "sd_strerror SD_ERR_IO = ''I/O error''"
| "sd_strerror SD_ERR_NO_MEM = ''out of memory''"
| "sd_strerror SD_ERR_TIMEOUT = ''timeout''"
| "sd_strerror SD_ERR_AGAIN = ''not ready (retry)''"
| "sd_strerror SD_ERR_UNSUPPORTED = ''unsupported''"

lemma sd_strerror_inj: "sd_strerror e = sd_strerror e' \<longleftrightarrow> e = e'"
  by (cases e; cases e') simp_all

lemma sd_strerror_nonempty: "sd_strerror e \<noteq> []"
  by (cases e) simp_all

section \<open>Log levels\<close>

datatype sd_log_level = SD_LOG_ERROR | SD_LOG_WARN | SD_LOG_INFO | SD_LOG_DEBUG

text \<open>The enumeration's order decides what is printed: a level is its position.\<close>

fun level_num :: "sd_log_level \<Rightarrow> nat" where
  "level_num SD_LOG_ERROR = 0"
| "level_num SD_LOG_WARN = 1"
| "level_num SD_LOG_INFO = 2"
| "level_num SD_LOG_DEBUG = 3"

fun level_tag :: "sd_log_level \<Rightarrow> string" where
  "level_tag SD_LOG_ERROR = ''E''"
| "level_tag SD_LOG_WARN = ''W''"
| "level_tag SD_LOG_INFO = ''I''"
| "level_tag SD_LOG_DEBUG = ''D''"

text \<open>
  The logger's state is its maximum level and the text written to \<open>stderr\<close> so far;
  \<open>msg\<close> is the formatted message, \<open>tag = None\<close> a NULL tag.
\<close>

record logger =
  s_max_level :: sd_log_level
  stderr_text :: string

definition logger_init :: logger where
  "logger_init = \<lparr>s_max_level = SD_LOG_INFO, stderr_text = []\<rparr>"

definition sd_log_set_level :: "sd_log_level \<Rightarrow> logger \<Rightarrow> logger" where
  "sd_log_set_level level l = l\<lparr>s_max_level := level\<rparr>"

definition sd_log :: "sd_log_level \<Rightarrow> string option \<Rightarrow> string \<Rightarrow> logger \<Rightarrow> logger" where
  "sd_log level tag msg l =
     (if level_num (s_max_level l) < level_num level then l
      else l\<lparr>stderr_text := stderr_text l @
        ''['' @ level_tag level @ '']['' @ (case tag of None \<Rightarrow> ''?'' | Some s \<Rightarrow> s) @ ''] '' @
        msg @ [CHR 0x0A]\<rparr>)"

text \<open>
  The calls of the logger an operation makes: level, tag and formatted message. \<open>log_text\<close> is what
  they write when the maximum level is \<open>lim\<close>.
\<close>

type_synonym log_line = "sd_log_level \<times> string \<times> string"

fun log_lines :: "log_line list \<Rightarrow> logger \<Rightarrow> logger" where
  "log_lines [] l = l"
| "log_lines ((level, tag, msg) # ls) l = log_lines ls (sd_log level (Some tag) msg l)"

definition log_text :: "sd_log_level \<Rightarrow> log_line list \<Rightarrow> string" where
  "log_text lim ls = stderr_text (log_lines ls (sd_log_set_level lim logger_init))"

instantiation sd_log_level :: linorder
begin

definition less_eq_sd_log_level :: "sd_log_level \<Rightarrow> sd_log_level \<Rightarrow> bool" where
  "less_eq_sd_log_level a b \<longleftrightarrow> level_num a \<le> level_num b"

definition less_sd_log_level :: "sd_log_level \<Rightarrow> sd_log_level \<Rightarrow> bool" where
  "less_sd_log_level a b \<longleftrightarrow> level_num a < level_num b"

instance
proof
  fix x y z :: sd_log_level
  show "(x < y) = (x \<le> y \<and> \<not> y \<le> x)"
    by (auto simp: less_sd_log_level_def less_eq_sd_log_level_def)
  show "x \<le> x"
    by (simp add: less_eq_sd_log_level_def)
  show "x \<le> y \<Longrightarrow> y \<le> z \<Longrightarrow> x \<le> z"
    by (simp add: less_eq_sd_log_level_def)
  show "x \<le> y \<Longrightarrow> y \<le> x \<Longrightarrow> x = y"
    by (cases x; cases y) (simp_all add: less_eq_sd_log_level_def)
  show "x \<le> y \<or> y \<le> x"
    by (auto simp: less_eq_sd_log_level_def)
qed

end

text \<open>A message is written exactly when its level is within the configured maximum.\<close>

lemma sd_log_written_iff:
  "stderr_text (sd_log level tag msg l) \<noteq> stderr_text l \<longleftrightarrow> level \<le> s_max_level l"
  by (auto simp: sd_log_def less_eq_sd_log_level_def)

lemma sd_log_max_level [simp]: "s_max_level (sd_log level tag msg l) = s_max_level l"
  by (simp add: sd_log_def)

end
