(* ===== verification/Mic.thy ===== *)
theory Mic
  imports Core
begin

text \<open>
  The microphone mock (\<open>src/hal/mock/mic_mock.c\<close>): a 440 Hz sine in double precision. The arithmetic of
  \<open>double\<close> and \<open>sin\<close> is a parameter, since the lemmas hold for any; the stub of the ESP32 is in \<open>Esp\<close>.
\<close>

section \<open>The code\<close>

text \<open>\<open>double\<close>: the literals, the operations the code uses, and the conversions from and to integers.\<close>

record 'f double_ops =
  f_lit :: "nat \<Rightarrow> 'f"
  M_PI :: 'f
  f_add :: "'f \<Rightarrow> 'f \<Rightarrow> 'f"
  f_mul :: "'f \<Rightarrow> 'f \<Rightarrow> 'f"
  f_div :: "'f \<Rightarrow> 'f \<Rightarrow> 'f"
  f_sin :: "'f \<Rightarrow> 'f"
  f_of_u32 :: "u32 \<Rightarrow> 'f"
  f_to_i16 :: "'f \<Rightarrow> 16 word"

record 'f mic =
  mic_rate :: u32
  mic_initialized :: bool
  mic_phase :: 'f

definition mic_boot :: "'f double_ops \<Rightarrow> 'f mic" where
  "mic_boot D = \<lparr>mic_rate = 0, mic_initialized = False, mic_phase = f_lit D 0\<rparr>"

definition mock_mic_init :: "'f double_ops \<Rightarrow> u32 \<Rightarrow> 'f mic \<Rightarrow> sd_err \<times> 'f mic" where
  "mock_mic_init D sample_rate m =
     (if sample_rate = 0 then (SD_ERR_INVALID, m)
      else (SD_OK, m\<lparr>mic_rate := sample_rate, mic_phase := f_lit D 0, mic_initialized := True\<rparr>))"

definition phase_step :: "'f double_ops \<Rightarrow> u32 \<Rightarrow> 'f" where
  "phase_step D rate = f_div D (f_mul D (f_mul D (f_lit D 2) (M_PI D)) (f_lit D 440)) (f_of_u32 D rate)"

text \<open>The loop from frame \<open>i\<close> on, with \<open>n\<close> frames to go; \<open>None\<close> writes outside the buffer.\<close>

fun sine_loop :: "'f double_ops \<Rightarrow> 'f \<Rightarrow> nat \<Rightarrow> nat \<Rightarrow> 16 word list \<Rightarrow> 'f \<Rightarrow> (16 word list \<times> 'f) option" where
  "sine_loop D step i 0 buf phase = Some (buf, phase)"
| "sine_loop D step i (Suc n) buf phase =
     (if length buf \<le> i then None
      else sine_loop D step (Suc i) n (buf[i := f_to_i16 D (f_mul D (f_sin D phase) (f_lit D 8000))])
             (f_add D phase step))"

text \<open>\<open>frames_read\<close> only by its presence; the result has the code, the buffer, the count written and the state.\<close>

definition mock_mic_read ::
    "'f double_ops \<Rightarrow> 'f mic \<Rightarrow> 16 word list option \<Rightarrow> nat \<Rightarrow> bool
       \<Rightarrow> (sd_err \<times> 16 word list option \<times> nat option \<times> 'f mic) option" where
  "mock_mic_read D m buf max_frames frames_read =
     (case buf of None \<Rightarrow> Some (SD_ERR_INVALID, buf, None, m)
      | Some b \<Rightarrow>
          if \<not> frames_read then Some (SD_ERR_INVALID, buf, None, m)
          else if \<not> mic_initialized m then Some (SD_ERR_AGAIN, buf, None, m)
          else (case sine_loop D (phase_step D (mic_rate m)) 0 max_frames b (mic_phase m) of
                  None \<Rightarrow> None
                | Some (b, phase) \<Rightarrow> Some (SD_OK, Some b, Some max_frames, m\<lparr>mic_phase := phase\<rparr>)))"

section \<open>The stream of samples\<close>

text \<open>Specification: the samples of a sine that starts at a phase, and the phase behind them.\<close>

fun sine :: "'f double_ops \<Rightarrow> 'f \<Rightarrow> 'f \<Rightarrow> nat \<Rightarrow> 16 word list" where
  "sine D step phase 0 = []"
| "sine D step phase (Suc n) = f_to_i16 D (f_mul D (f_sin D phase) (f_lit D 8000)) # sine D step (f_add D phase step) n"

fun phase_after :: "'f double_ops \<Rightarrow> 'f \<Rightarrow> 'f \<Rightarrow> nat \<Rightarrow> 'f" where
  "phase_after D step phase 0 = phase"
| "phase_after D step phase (Suc n) = phase_after D step (f_add D phase step) n"

lemma length_sine [simp]: "length (sine D step phase n) = n"
  by (induction n arbitrary: phase) auto

lemma sine_add:
  "sine D step phase (n + k) = sine D step phase n @ sine D step (phase_after D step phase n) k"
  "phase_after D step phase (n + k) = phase_after D step (phase_after D step phase n) k"
  by (induction n arbitrary: phase) simp_all

lemma sine_loop_fills:
  "i + n \<le> length buf \<Longrightarrow> sine_loop D step i n buf phase =
     Some (take i buf @ sine D step phase n @ drop (i + n) buf, phase_after D step phase n)"
proof (induction n arbitrary: i buf phase)
  case (Suc n)
  let ?x = "f_to_i16 D (f_mul D (f_sin D phase) (f_lit D 8000))"
  have "take (Suc i) (buf[i := ?x]) = take i buf @ [?x]"
    using Suc.prems by (simp add: take_Suc_conv_app_nth)
  then show ?case using Suc.IH [of "Suc i" "buf[i := ?x]"] Suc.prems by simp
qed simp

text \<open>
  A read fills the buffer from the front and touches nothing else, and reading in two pieces gives
  the samples of one read: the phase carries over, whatever the arithmetic.
\<close>

lemma mock_mic_read_pieces:
  assumes "mic_initialized m" and "n \<le> length a" and "k \<le> length b"
  shows "\<exists>x y m1 m2. mock_mic_read D m (Some a) n True = Some (SD_OK, Some (x @ drop n a), Some n, m1) \<and>
    mock_mic_read D m1 (Some b) k True = Some (SD_OK, Some (y @ drop k b), Some k, m2) \<and>
    length x = n \<and> length y = k \<and>
    mock_mic_read D m (Some (a @ b)) (n + k) True =
      Some (SD_OK, Some (x @ y @ drop (n + k) (a @ b)), Some (n + k), m2)"
  using assms
  by (simp add: mock_mic_read_def sine_loop_fills sine_add)

lemma mock_mic_errors:
  "mock_mic_read D m None n fr = Some (SD_ERR_INVALID, None, None, m)"
  "mock_mic_read D (mic_boot D) (Some b) n True = Some (SD_ERR_AGAIN, Some b, None, mic_boot D)"
  "mock_mic_init D 0 m = (SD_ERR_INVALID, m)"
  by (simp_all add: mock_mic_read_def mic_boot_def mock_mic_init_def)

end
