(* ===== verification/Config.thy ===== *)
theory Config
  imports Core
begin

text \<open>
  Device configuration (\<open>src/config/config.c\<close>): defaults, the versioned blob, string-keyed field
  access, and the storage seam with its host backend (\<open>config_store_host.c\<close>). The seam is a
  locale: the load and save lemmas are proved against its laws and the host's file store is
  shown to obey them.
\<close>

section \<open>The configuration and its fields\<close>

definition SD_CONFIG_VERSION :: u32 where "SD_CONFIG_VERSION = 1"
definition SD_WIFI_SSID_MAX :: nat where "SD_WIFI_SSID_MAX = 32"
definition SD_WIFI_PASS_MAX :: nat where "SD_WIFI_PASS_MAX = 63"
definition SD_HOST_MAX :: nat where "SD_HOST_MAX = 63"
definition SD_NAME_MAX :: nat where "SD_NAME_MAX = 32"

lemmas field_sizes = SD_WIFI_SSID_MAX_def SD_WIFI_PASS_MAX_def SD_HOST_MAX_def SD_NAME_MAX_def

text \<open>
  The struct with its two padding bytes (before the 16-bit port and at the end), since the
  whole object is copied to and from the store. The arrays are lists of their full size.
\<close>

record sd_config =
  wifi_ssid :: "char list"
  wifi_password :: "char list"
  server_host :: "char list"
  pad_port :: byte
  server_port :: "16 word"
  device_name :: "char list"
  pad_end :: byte

text \<open>For a NULL \<open>out\<close> the function returns at once; no caller passes it.\<close>

definition sd_config_defaults :: sd_config where
  "sd_config_defaults =
     (let zero = \<lparr>wifi_ssid = replicate (SD_WIFI_SSID_MAX + 1) NUL,
                  wifi_password = replicate (SD_WIFI_PASS_MAX + 1) NUL,
                  server_host = replicate (SD_HOST_MAX + 1) NUL,
                  pad_port = 0, server_port = 0,
                  device_name = replicate (SD_NAME_MAX + 1) NUL, pad_end = 0\<rparr>;
          name = ''sudonit-glasses'';
          n = (if length name > SD_NAME_MAX then SD_NAME_MAX else length name)
      in zero\<lparr>server_port := 8765,
              device_name := take n name @ NUL # drop (Suc n) (device_name zero)\<rparr>)"

text \<open>\<open>set_str\<close>: \<open>dst\<close> is an array of \<open>maxlen + 1\<close> characters.\<close>

definition set_str :: "char list \<Rightarrow> string \<Rightarrow> nat \<Rightarrow> sd_err \<times> char list" where
  "set_str dst v maxlen =
     (let n = length v
      in if n > maxlen then (SD_ERR_INVALID, dst)
         else (SD_OK, v @ NUL # drop (Suc n) dst))"

text \<open>
  \<open>strtol(s, &end, 10)\<close>: blanks, an optional sign, digits; the value saturates at the limits of
  a 64-bit \<open>long\<close>, and \<open>end\<close> is the start when there is no digit.
\<close>

definition is_space :: "char \<Rightarrow> bool" where
  "is_space c \<longleftrightarrow> c = CHR '' '' \<or> (9 \<le> (of_char c :: nat) \<and> (of_char c :: nat) \<le> 13)"

definition dec_value :: "string \<Rightarrow> nat" where
  "dec_value ds = foldl (\<lambda>v c. v * 10 + (of_char c - 48)) 0 ds"

definition LONG_MAX :: int where "LONG_MAX = 2 ^ 63 - 1"
definition LONG_MIN :: int where "LONG_MIN = - (2 ^ 63)"

definition strtol :: "string \<Rightarrow> int \<times> string" where
  "strtol s =
     (let p = dropWhile is_space s;
          neg = (deref p = CHR ''-'');
          q = (if deref p = CHR ''-'' \<or> deref p = CHR ''+'' then tl p else p);
          ds = takeWhile is_digit q
      in if ds = [] then (0, s)
         else (if neg then max LONG_MIN (- int (dec_value ds)) else min LONG_MAX (int (dec_value ds)),
               dropWhile is_digit q))"

definition sd_config_set_field ::
    "sd_config option \<Rightarrow> string option \<Rightarrow> string option \<Rightarrow> sd_err \<times> sd_config option" where
  "sd_config_set_field cfg key v =
     (case (cfg, key, v) of
        (Some c, Some key, Some v) \<Rightarrow>
          if key = ''device_name'' then
            (case set_str (device_name c) v SD_NAME_MAX of (e, d) \<Rightarrow> (e, Some (c\<lparr>device_name := d\<rparr>)))
          else if key = ''wifi_ssid'' then
            (case set_str (wifi_ssid c) v SD_WIFI_SSID_MAX of (e, d) \<Rightarrow> (e, Some (c\<lparr>wifi_ssid := d\<rparr>)))
          else if key = ''wifi_password'' then
            (case set_str (wifi_password c) v SD_WIFI_PASS_MAX of (e, d) \<Rightarrow> (e, Some (c\<lparr>wifi_password := d\<rparr>)))
          else if key = ''server_host'' then
            (case set_str (server_host c) v SD_HOST_MAX of (e, d) \<Rightarrow> (e, Some (c\<lparr>server_host := d\<rparr>)))
          else if key = ''server_port'' then
            (case strtol v of (x, rest) \<Rightarrow>
               if deref v = NUL \<or> deref rest \<noteq> NUL \<or> x < 1 \<or> x > 65535 then (SD_ERR_INVALID, cfg)
               else (SD_OK, Some (c\<lparr>server_port := word_of_int x\<rparr>)))
          else (SD_ERR_INVALID, cfg)
      | _ \<Rightarrow> (SD_ERR_INVALID, cfg))"

definition sd_config_get_field ::
    "sd_config option \<Rightarrow> string option \<Rightarrow> char list option \<Rightarrow> sd_err \<times> char list option" where
  "sd_config_get_field cfg key out =
     (case (cfg, key, out) of
        (Some c, Some key, Some buf) \<Rightarrow>
          if length buf = 0 then (SD_ERR_INVALID, out)
          else if key = ''device_name'' then (SD_OK, Some (snprintf_str buf (cstr (device_name c))))
          else if key = ''wifi_ssid'' then (SD_OK, Some (snprintf_str buf (cstr (wifi_ssid c))))
          else if key = ''wifi_password'' then (SD_OK, Some (snprintf_str buf (cstr (wifi_password c))))
          else if key = ''server_host'' then (SD_OK, Some (snprintf_str buf (cstr (server_host c))))
          else if key = ''server_port'' then (SD_OK, Some (snprintf_str buf (decimal (unat (server_port c)))))
          else (SD_ERR_INVALID, out)
      | _ \<Rightarrow> (SD_ERR_INVALID, out))"

section \<open>The blob\<close>

text \<open>Both targets are little-endian; \<open>memcpy\<close> copies the object representation.\<close>

definition le16 :: "16 word \<Rightarrow> byte list" where
  "le16 w = [ucast w, ucast (drop_bit 8 w)]"

definition le32 :: "u32 \<Rightarrow> byte list" where
  "le32 w = [ucast w, ucast (drop_bit 8 w), ucast (drop_bit 16 w), ucast (drop_bit 24 w)]"

definition read_le16 :: "byte list \<Rightarrow> 16 word" where
  "read_le16 bs = ucast (bs ! 0) OR push_bit 8 (ucast (bs ! 1))"

definition read_le32 :: "byte list \<Rightarrow> u32" where
  "read_le32 bs = ucast (bs ! 0) OR push_bit 8 (ucast (bs ! 1)) OR push_bit 16 (ucast (bs ! 2)) OR
     push_bit 24 (ucast (bs ! 3))"

definition struct_bytes :: "sd_config \<Rightarrow> byte list" where
  "struct_bytes c = bytes_of_string (wifi_ssid c) @ bytes_of_string (wifi_password c) @
     bytes_of_string (server_host c) @ [pad_port c] @ le16 (server_port c) @
     bytes_of_string (device_name c) @ [pad_end c]"

definition struct_of_bytes :: "byte list \<Rightarrow> sd_config" where
  "struct_of_bytes bs =
     \<lparr>wifi_ssid = string_of_bytes (take 33 bs),
      wifi_password = string_of_bytes (take 64 (drop 33 bs)),
      server_host = string_of_bytes (take 64 (drop 97 bs)),
      pad_port = bs ! 161, server_port = read_le16 (take 2 (drop 162 bs)),
      device_name = string_of_bytes (take 33 (drop 164 bs)), pad_end = bs ! 197\<rparr>"

definition VERSION_BYTES :: nat where "VERSION_BYTES = 4"
definition BLOB_BYTES :: nat where "BLOB_BYTES = VERSION_BYTES + 198"

record 's store_ops =
  st_read :: "'s \<Rightarrow> nat \<Rightarrow> sd_err \<times> byte list"
  st_write :: "'s \<Rightarrow> byte list \<Rightarrow> sd_err \<times> 's"

definition sd_config_load :: "'s store_ops \<Rightarrow> 's \<Rightarrow> sd_config option \<Rightarrow> sd_err \<times> sd_config option" where
  "sd_config_load st s out =
     (case out of None \<Rightarrow> (SD_ERR_INVALID, out)
      | Some _ \<Rightarrow>
          (case st_read st s BLOB_BYTES of (err, blob) \<Rightarrow>
             if err = SD_ERR_NO_MEM then (SD_OK, Some sd_config_defaults)
             else if err \<noteq> SD_OK then (err, Some sd_config_defaults)
             else if length blob = 0 then (SD_OK, Some sd_config_defaults)
             else if length blob < BLOB_BYTES then (SD_OK, Some sd_config_defaults)
             else if read_le32 (take VERSION_BYTES blob) \<noteq> SD_CONFIG_VERSION
             then (SD_OK, Some sd_config_defaults)
             else (let c = struct_of_bytes (drop VERSION_BYTES blob)
                   in (SD_OK, Some
                        (c\<lparr>wifi_ssid := (wifi_ssid c)[SD_WIFI_SSID_MAX := NUL],
                           wifi_password := (wifi_password c)[SD_WIFI_PASS_MAX := NUL],
                           server_host := (server_host c)[SD_HOST_MAX := NUL],
                           device_name := (device_name c)[SD_NAME_MAX := NUL]\<rparr>)))))"

text \<open>What a load logs, branch by branch.\<close>

definition config_version_text :: "u32 \<Rightarrow> string" where
  "config_version_text v =
     ''config version '' @ decimal (unat v) @ '' != '' @ decimal (unat SD_CONFIG_VERSION) @ ''; using defaults''"

definition sd_config_load_log :: "'s store_ops \<Rightarrow> 's \<Rightarrow> sd_config option \<Rightarrow> log_line list" where
  "sd_config_load_log st s out =
     (case out of None \<Rightarrow> []
      | Some _ \<Rightarrow>
          (case st_read st s BLOB_BYTES of (err, blob) \<Rightarrow>
             if err = SD_ERR_NO_MEM
             then [(SD_LOG_WARN, ''config'', ''stored config larger than expected; using defaults'')]
             else if err \<noteq> SD_OK
             then [(SD_LOG_WARN, ''config'', ''store read failed ('' @ sd_strerror err @ ''); using defaults'')]
             else if length blob = 0 then [(SD_LOG_INFO, ''config'', ''no stored config; using defaults'')]
             else if length blob < BLOB_BYTES
             then [(SD_LOG_WARN, ''config'', ''stored config too small ('' @ decimal (length blob) @ '' bytes); using defaults'')]
             else if read_le32 (take VERSION_BYTES blob) \<noteq> SD_CONFIG_VERSION
             then [(SD_LOG_WARN, ''config'', config_version_text (read_le32 (take VERSION_BYTES blob)))]
             else []))"

definition sd_config_save :: "'s store_ops \<Rightarrow> 's \<Rightarrow> sd_config option \<Rightarrow> sd_err \<times> 's" where
  "sd_config_save st s cfg =
     (case cfg of None \<Rightarrow> (SD_ERR_INVALID, s)
      | Some c \<Rightarrow> st_write st s (le32 SD_CONFIG_VERSION @ struct_bytes c))"

section \<open>The host's file store\<close>

text \<open>
  The file at \<open>config_path()\<close> (\<open>None\<close>: it cannot be opened for reading), the number of bytes
  after which reading it fails (\<open>None\<close>: it does not), whether the file can be opened for writing, how many
  bytes \<open>fwrite\<close> takes into its buffer, and how many of those reach the medium when \<open>fclose\<close> flushes
  it. Opening for writing truncates the file; the code does not look at the result of \<open>fclose\<close>.
\<close>

record host_fs =
  fs_file :: "byte list option"
  rd_fail :: "nat option"
  wr_open :: bool
  wr_limit :: nat
  flush_limit :: nat

text \<open>The value of \<open>SUDONIT_CONFIG_PATH\<close>, if it is set, decides where the file is.\<close>

definition config_path :: "string option \<Rightarrow> string" where
  "config_path env = (case env of None \<Rightarrow> ''sudonit_config.bin''
     | Some p \<Rightarrow> if p \<noteq> [] then p else ''sudonit_config.bin'')"

definition host_store_read :: "host_fs \<Rightarrow> bool \<Rightarrow> bool \<Rightarrow> nat \<Rightarrow> sd_err \<times> byte list" where
  "host_store_read fs buf out_len cap =
     (if \<not> buf \<or> \<not> out_len then (SD_ERR_INVALID, [])
      else (case fs_file fs of
              None \<Rightarrow> (SD_OK, [])
            | Some content \<Rightarrow>
                (let readable = (case rd_fail fs of None \<Rightarrow> content | Some k \<Rightarrow> take k content);
                     got = take cap readable;
                     overflow = (length got = cap \<and> length readable > cap)
                 in if overflow then (SD_ERR_NO_MEM, []) else (SD_OK, got))))"

definition host_store_write :: "host_fs \<Rightarrow> bool \<Rightarrow> byte list \<Rightarrow> sd_err \<times> host_fs" where
  "host_store_write fs buf bs =
     (if \<not> buf \<and> length bs > 0 then (SD_ERR_INVALID, fs)
      else if \<not> wr_open fs then (SD_ERR_IO, fs)
      else (let n = min (length bs) (wr_limit fs)
            in (if n = length bs then SD_OK else SD_ERR_IO, fs\<lparr>fs_file := Some (take (min n (flush_limit fs)) bs)\<rparr>)))"

text \<open>The callers pass a local array and a local length, never NULL.\<close>

definition host_store :: "host_fs store_ops" where
  "host_store = \<lparr>st_read = (\<lambda>fs. host_store_read fs True True), st_write = (\<lambda>fs. host_store_write fs True)\<rparr>"

section \<open>The invariant\<close>

text \<open>
  Every array has its size and a NUL in its last byte, so each field is a C string that fits.
\<close>

definition field_ok :: "nat \<Rightarrow> char list \<Rightarrow> bool" where
  "field_ok maxlen d \<longleftrightarrow> length d = Suc maxlen \<and> d ! maxlen = NUL"

definition config_ok :: "sd_config \<Rightarrow> bool" where
  "config_ok c \<longleftrightarrow> field_ok SD_WIFI_SSID_MAX (wifi_ssid c) \<and> field_ok SD_WIFI_PASS_MAX (wifi_password c) \<and>
     field_ok SD_HOST_MAX (server_host c) \<and> field_ok SD_NAME_MAX (device_name c)"

lemma field_ok_cstr: "field_ok n d \<Longrightarrow> length (cstr d) \<le> n"
  using cstr_length_less [of d] nth_mem [of n d] by (simp add: field_ok_def terminated_def)

lemma config_ok_defaults: "config_ok sd_config_defaults"
  by (simp add: config_ok_def sd_config_defaults_def field_ok_def field_sizes Let_def nth_append)

lemma set_str_result:
  assumes "field_ok maxlen d" and "nul_free v"
  shows "case set_str d v maxlen of (e, d') \<Rightarrow> field_ok maxlen d' \<and>
    (if length v \<le> maxlen then e = SD_OK \<and> cstr d' = v else e = SD_ERR_INVALID \<and> d' = d)"
proof (cases "length v \<le> maxlen")
  case True
  have "(v @ NUL # drop (Suc (length v)) d) ! maxlen = NUL"
  proof (cases "length v = maxlen")
    case False
    then have "length v < maxlen" using True by simp
    then show ?thesis
      using assms(1) by (simp add: nth_append nth_Cons' field_ok_def)
  qed (simp add: nth_append)
  then show ?thesis
    using True assms by (auto simp: set_str_def field_ok_def)
qed (use assms in \<open>simp add: set_str_def\<close>)

lemma set_field_ok:
  assumes "config_ok c" and "\<forall>x. v = Some x \<longrightarrow> nul_free x"
    and "sd_config_set_field (Some c) key v = (e, c')"
  shows "\<exists>d. c' = Some d \<and> config_ok d \<and> (e \<noteq> SD_OK \<longrightarrow> d = c \<and> e = SD_ERR_INVALID)"
proof (cases "\<exists>k x. key = Some k \<and> v = Some x")
  case True
  then obtain k x where kx: "key = Some k" "v = Some x" "nul_free x" using assms(2) by auto
  show ?thesis
    using assms(1,3) kx set_str_result [of SD_NAME_MAX "device_name c" x]
      set_str_result [of SD_WIFI_SSID_MAX "wifi_ssid c" x] set_str_result [of SD_WIFI_PASS_MAX "wifi_password c" x]
      set_str_result [of SD_HOST_MAX "server_host c" x]
    by (auto simp: sd_config_set_field_def config_ok_def split: prod.splits if_splits)
next
  case False
  then show ?thesis
    using assms(1,3) by (cases key; cases v) (auto simp: sd_config_set_field_def)
qed

text \<open>The value of a field as text, and the keys that name one.\<close>

definition field_text :: "sd_config \<Rightarrow> string \<Rightarrow> string option" where
  "field_text c k =
     (if k = ''device_name'' then Some (cstr (device_name c))
      else if k = ''wifi_ssid'' then Some (cstr (wifi_ssid c))
      else if k = ''wifi_password'' then Some (cstr (wifi_password c))
      else if k = ''server_host'' then Some (cstr (server_host c))
      else if k = ''server_port'' then Some (decimal (unat (server_port c))) else None)"

lemma get_field_text:
  "sd_config_get_field (Some c) (Some k) (Some buf) =
     (if buf = [] then (SD_ERR_INVALID, Some buf)
      else case field_text c k of None \<Rightarrow> (SD_ERR_INVALID, Some buf)
        | Some s \<Rightarrow> (SD_OK, Some (snprintf_str buf s)))"
  by (simp add: sd_config_get_field_def field_text_def)

definition max_len :: "string \<Rightarrow> nat" where
  "max_len k = (if k = ''device_name'' then SD_NAME_MAX else if k = ''wifi_ssid'' then SD_WIFI_SSID_MAX
     else if k = ''wifi_password'' then SD_WIFI_PASS_MAX else SD_HOST_MAX)"

definition string_key :: "string \<Rightarrow> bool" where
  "string_key k \<longleftrightarrow> k \<in> {''device_name'', ''wifi_ssid'', ''wifi_password'', ''server_host''}"

lemma set_string_field:
  assumes "config_ok c" and "string_key k" and "nul_free v"
  shows "if length v \<le> max_len k
    then \<exists>d. sd_config_set_field (Some c) (Some k) (Some v) = (SD_OK, Some d) \<and> config_ok d \<and>
      (\<forall>k'. field_text d k' = (if k' = k then Some v else field_text c k'))
    else sd_config_set_field (Some c) (Some k) (Some v) = (SD_ERR_INVALID, Some c)"
  using assms set_str_result [of SD_NAME_MAX "device_name c" v]
    set_str_result [of SD_WIFI_SSID_MAX "wifi_ssid c" v] set_str_result [of SD_WIFI_PASS_MAX "wifi_password c" v]
    set_str_result [of SD_HOST_MAX "server_host c" v]
  by (auto simp: string_key_def max_len_def sd_config_set_field_def config_ok_def field_text_def
      split: prod.splits if_splits)

section \<open>Reading numbers\<close>

lemma dec_value_snoc: "dec_value (s @ [c]) = dec_value s * 10 + (of_char c - 48)"
  by (simp add: dec_value_def)

lemma dec_value_decimal: "dec_value (decimal n) = n"
proof (induction n rule: decimal.induct)
  case (1 n)
  have d: "of_char (digit_char d) - 48 = d" if "d < 10" for d
    using that by (simp add: digit_char_def)
  show ?case
  proof (cases "n < 10")
    case True
    then show ?thesis using d [of n] by (subst decimal.simps) (simp add: dec_value_def)
  next
    case False
    then show ?thesis
      using 1 d [of "n mod 10"] by (subst decimal.simps) (simp add: dec_value_snoc)
  qed
qed

lemma digit_not_space: "is_digit c \<Longrightarrow> \<not> is_space c \<and> c \<noteq> CHR ''-'' \<and> c \<noteq> CHR ''+'' \<and> c \<noteq> NUL"
  by (auto simp: is_digit_def is_space_def code_def)

lemma strtol_decimal: "int n \<le> LONG_MAX \<Longrightarrow> strtol (decimal n) = (int n, [])"
proof -
  assume n: "int n \<le> LONG_MAX"
  obtain c s where d: "decimal n = c # s" "is_digit c" using decimal_hd by blast
  have all: "list_all is_digit (c # s)" using decimal_digits [of n] d by simp
  have sp: "dropWhile is_space (c # s) = c # s" "deref (c # s) \<noteq> CHR ''-''" "deref (c # s) \<noteq> CHR ''+''"
    using digit_not_space [OF d(2)] by simp_all
  have w: "takeWhile is_digit (c # s) = c # s" "dropWhile is_digit (c # s) = []"
    using all by (auto simp: list_all_iff)
  have v: "dec_value (c # s) = n" using dec_value_decimal [of n] d by simp
  show ?thesis
    unfolding strtol_def d Let_def sp(1) if_not_P [OF sp(2)] using sp(2,3) n by (simp add: w v del: takeWhile.simps dropWhile.simps)
qed

lemma strtol_whole:
  "strtol v = (x, []) \<Longrightarrow> v \<noteq> [] \<Longrightarrow> 1 \<le> x \<Longrightarrow>
     \<exists>ws sgn ds. v = ws @ sgn @ ds \<and> list_all is_space ws \<and> sgn \<in> {[], ''+''} \<and> list_all is_digit ds \<and>
       ds \<noteq> [] \<and> x = min LONG_MAX (int (dec_value ds))"
proof -
  assume a: "strtol v = (x, [])" "v \<noteq> []" "1 \<le> x"
  define p where "p = dropWhile is_space v"
  define q where "q = (if deref p = CHR ''-'' \<or> deref p = CHR ''+'' then tl p else p)"
  define ds where "ds = takeWhile is_digit q"
  have ds: "ds \<noteq> []" using a by (auto simp: strtol_def Let_def p_def q_def ds_def split: if_splits)
  then have r: "dropWhile is_digit q = []"
    and x: "x = (if deref p = CHR ''-'' then max LONG_MIN (- int (dec_value ds)) else min LONG_MAX (int (dec_value ds)))"
    using a(1) by (auto simp: strtol_def Let_def p_def q_def ds_def split: if_splits)
  have "deref p \<noteq> CHR ''-''" using x a(3) by (auto simp: LONG_MIN_def split: if_splits)
  then have p': "p = (if deref p = CHR ''+'' then ''+'' else []) @ q"
    by (cases p) (auto simp: q_def)
  have "q = ds" using r by (metis ds_def append_Nil2 takeWhile_dropWhile_id)
  moreover have "v = takeWhile is_space v @ p" by (simp add: p_def)
  moreover have "list_all is_space (takeWhile is_space v)" "list_all is_digit ds"
    by (auto simp: list_all_iff ds_def dest: set_takeWhileD)
  ultimately show ?thesis
    using p' x ds \<open>deref p \<noteq> CHR ''-''\<close>
    by (intro exI [of _ "takeWhile is_space v"] exI [of _ "if deref p = CHR ''+'' then ''+'' else []"] exI [of _ ds])
      auto
qed

section \<open>The blob round trip\<close>

lemma read_le16_le16: "read_le16 (le16 w) = w"
  by (rule bit_word_eqI) (auto simp: read_le16_def le16_def bit_simps)

lemma read_le32_version: "read_le32 (le32 SD_CONFIG_VERSION) = SD_CONFIG_VERSION"
  by (simp add: read_le32_def le32_def SD_CONFIG_VERSION_def)

lemma length_le: "length (le16 w) = 2" "length (le32 v) = 4"
  by (simp_all add: le16_def le32_def)

lemma length_struct_bytes: "config_ok c \<Longrightarrow> length (struct_bytes c) = 198"
  by (simp add: struct_bytes_def config_ok_def field_ok_def field_sizes length_le)

lemma string_of_bytes_append: "string_of_bytes (a @ b) = string_of_bytes a @ string_of_bytes b"
  by (simp add: string_of_bytes_def)

lemma struct_roundtrip:
  assumes "config_ok c"
  shows "struct_of_bytes (struct_bytes c) = c"
proof -
  obtain a b h p w n q where c: "c = \<lparr>wifi_ssid = a, wifi_password = b, server_host = h, pad_port = p,
      server_port = w, device_name = n, pad_end = q\<rparr>" by (cases c)
  then have l: "length a = 33" "length b = 64" "length h = 64" "length n = 33"
    using assms by (simp_all add: config_ok_def field_ok_def field_sizes)
  have s: "struct_bytes c = bytes_of_string a @ bytes_of_string b @ bytes_of_string h @ [p] @ le16 w @
      bytes_of_string n @ [q]"
    by (simp add: struct_bytes_def c)
  have "take 33 (struct_bytes c) = bytes_of_string a" "take 64 (drop 33 (struct_bytes c)) = bytes_of_string b"
    "take 64 (drop 97 (struct_bytes c)) = bytes_of_string h" "struct_bytes c ! 161 = p"
    "take 2 (drop 162 (struct_bytes c)) = le16 w" "take 33 (drop 164 (struct_bytes c)) = bytes_of_string n"
    "struct_bytes c ! 197 = q"
    unfolding s by (simp_all add: l length_le nth_append)
  then show ?thesis by (simp add: struct_of_bytes_def read_le16_le16 c)
qed

lemma struct_of_bytes_lengths:
  assumes "length bs = 198"
  shows "length (wifi_ssid (struct_of_bytes bs)) = 33" "length (wifi_password (struct_of_bytes bs)) = 64"
    "length (server_host (struct_of_bytes bs)) = 64" "length (device_name (struct_of_bytes bs)) = 33"
  using assms by (simp_all add: struct_of_bytes_def)

section \<open>The storage seam\<close>

text \<open>
  The contract of \<open>config_store.h\<close>. \<open>stored s\<close> is the blob a backend holds, \<open>readable s\<close> that its
  medium can be read and keeps what it took. A failed write may leave the old blob or a prefix of the
  new one.
\<close>

locale config_store =
  fixes st :: "'s store_ops"
    and stored :: "'s \<Rightarrow> byte list option"
    and readable :: "'s \<Rightarrow> bool"
  assumes read_fits: "st_read st s cap = (e, bs) \<Longrightarrow> length bs \<le> cap"
    and read_error: "fst (st_read st s cap) \<in> {SD_OK, SD_ERR_IO, SD_ERR_NO_MEM}"
    and read_none: "stored s = None \<Longrightarrow> readable s \<Longrightarrow> st_read st s cap = (SD_OK, [])"
    and read_some: "stored s = Some b \<Longrightarrow> readable s \<Longrightarrow> length b \<le> cap \<Longrightarrow> st_read st s cap = (SD_OK, b)"
    and read_big: "stored s = Some b \<Longrightarrow> readable s \<Longrightarrow> cap < length b \<Longrightarrow> fst (st_read st s cap) = SD_ERR_NO_MEM"
    and write_ok: "st_write st s b = (SD_OK, s') \<Longrightarrow> readable s \<Longrightarrow> stored s' = Some b \<and> (readable s' \<longleftrightarrow> readable s)"
    and write_err: "st_write st s b = (e, s') \<Longrightarrow> e \<noteq> SD_OK \<Longrightarrow>
      e = SD_ERR_IO \<and> (readable s' \<longleftrightarrow> readable s) \<and>
      (stored s' = stored s \<or> (\<exists>k \<le> length b. stored s' = Some (take k b)))"
begin

text \<open>Every load, of any stored bytes, ends in a well-formed configuration.\<close>

lemma load_ok:
  "\<exists>e d. sd_config_load st s (Some c) = (e, Some d) \<and> config_ok d \<and> e \<in> {SD_OK, SD_ERR_IO} \<and>
     (e \<noteq> SD_OK \<longrightarrow> d = sd_config_defaults)"
proof -
  obtain e blob where r: "st_read st s BLOB_BYTES = (e, blob)" by (cases "st_read st s BLOB_BYTES")
  have e: "e \<in> {SD_OK, SD_ERR_IO, SD_ERR_NO_MEM}" using read_error [of s BLOB_BYTES] r by simp
  show ?thesis
  proof (cases "e = SD_OK \<and> length blob \<ge> BLOB_BYTES \<and> read_le32 (take VERSION_BYTES blob) = SD_CONFIG_VERSION")
    case False
    then show ?thesis
      using r e config_ok_defaults by (auto simp: sd_config_load_def BLOB_BYTES_def VERSION_BYTES_def)
  next
    case True
    let ?d = "struct_of_bytes (drop VERSION_BYTES blob)"
    have "length blob = BLOB_BYTES" using True read_fits [OF r] by simp
    then have "length (drop VERSION_BYTES blob) = 198" by (simp add: BLOB_BYTES_def VERSION_BYTES_def)
    note l = struct_of_bytes_lengths [OF this]
    have "config_ok (?d\<lparr>wifi_ssid := (wifi_ssid ?d)[SD_WIFI_SSID_MAX := NUL],
        wifi_password := (wifi_password ?d)[SD_WIFI_PASS_MAX := NUL],
        server_host := (server_host ?d)[SD_HOST_MAX := NUL],
        device_name := (device_name ?d)[SD_NAME_MAX := NUL]\<rparr>)"
      by (simp add: config_ok_def field_ok_def field_sizes l)
    moreover have "blob \<noteq> []" using True by (auto simp: BLOB_BYTES_def)
    ultimately show ?thesis using r True by (simp add: sd_config_load_def Let_def)
  qed
qed

lemma load_blob:
  assumes "stored s = Some (le32 SD_CONFIG_VERSION @ struct_bytes d)" and "readable s" and "config_ok d"
  shows "sd_config_load st s (Some c) = (SD_OK, Some d) \<and> sd_config_load_log st s (Some c) = []"
proof -
  define b where "b = le32 SD_CONFIG_VERSION @ struct_bytes d"
  have len: "length b = BLOB_BYTES" "b \<noteq> []" and parts: "drop VERSION_BYTES b = struct_bytes d"
      "take VERSION_BYTES b = le32 SD_CONFIG_VERSION"
    using assms(3) by (auto simp: b_def length_le length_struct_bytes BLOB_BYTES_def VERSION_BYTES_def
        simp: le32_def)
  have r: "st_read st s BLOB_BYTES = (SD_OK, b)"
    using assms(1,2) len by (intro read_some) (simp_all add: b_def)
  have "(wifi_ssid d)[SD_WIFI_SSID_MAX := NUL] = wifi_ssid d"
    "(wifi_password d)[SD_WIFI_PASS_MAX := NUL] = wifi_password d"
    "(server_host d)[SD_HOST_MAX := NUL] = server_host d" "(device_name d)[SD_NAME_MAX := NUL] = device_name d"
    using assms(3) by (auto simp: config_ok_def field_ok_def intro: list_update_same_conv [THEN iffD2])
  then show ?thesis
    by (simp add: sd_config_load_def sd_config_load_log_def Let_def r parts len struct_roundtrip [OF assms(3)] read_le32_version)
qed

text \<open>A load that falls back to the defaults says so, and a load that says nothing succeeded.\<close>

lemma load_log_fallback:
  "sd_config_load_log st s (Some c) \<noteq> [] \<Longrightarrow> snd (sd_config_load st s (Some c)) = Some sd_config_defaults"
  "sd_config_load_log st s (Some c) = [] \<Longrightarrow> fst (sd_config_load st s (Some c)) = SD_OK"
  by (auto simp: sd_config_load_log_def sd_config_load_def Let_def split: prod.splits if_splits)

lemma load_short:
  assumes "stored s = Some b" and "readable s" and "length b < BLOB_BYTES"
  shows "sd_config_load st s (Some c) = (SD_OK, Some sd_config_defaults)"
  using read_some [OF assms(1,2), of BLOB_BYTES] assms(3) by (simp add: sd_config_load_def)

lemma load_same:
  assumes "stored s' = stored s" and "readable s" and "readable s'"
  shows "sd_config_load st s' (Some c) = sd_config_load st s (Some c)"
proof (cases "\<exists>b. stored s = Some b \<and> BLOB_BYTES < length b")
  case True
  then have "fst (st_read st s BLOB_BYTES) = SD_ERR_NO_MEM" "fst (st_read st s' BLOB_BYTES) = SD_ERR_NO_MEM"
    using read_big assms by auto
  then show ?thesis by (cases "st_read st s BLOB_BYTES"; cases "st_read st s' BLOB_BYTES") (simp add: sd_config_load_def)
next
  case False
  then have "st_read st s' BLOB_BYTES = st_read st s BLOB_BYTES"
    using read_none read_some assms by (cases "stored s") (simp_all add: not_less)
  then show ?thesis by (simp add: sd_config_load_def)
qed

text \<open>A save is all or nothing for the next load, except that a torn write resets to the defaults.\<close>

lemma load_after_save:
  assumes "sd_config_save st s (Some d) = (e, s')" and "config_ok d" and "readable s"
  shows "if e = SD_OK then sd_config_load st s' (Some c) = (SD_OK, Some d)
    else e = SD_ERR_IO \<and> (sd_config_load st s' (Some c) = sd_config_load st s (Some c) \<or>
      sd_config_load st s' (Some c) \<in> {(SD_OK, Some d), (SD_OK, Some sd_config_defaults)})"
proof -
  let ?b = "le32 SD_CONFIG_VERSION @ struct_bytes d"
  have w: "st_write st s ?b = (e, s')" using assms(1) by (simp add: sd_config_save_def)
  have len: "length ?b = BLOB_BYTES"
    using assms(2) by (simp add: length_le length_struct_bytes BLOB_BYTES_def VERSION_BYTES_def)
  show ?thesis
  proof (cases "e = SD_OK")
    case True
    then show ?thesis using write_ok [of s ?b s'] w load_blob [of s' d c] assms(2,3) by simp
  next
    case False
    from write_err [OF w False] have r: "readable s'" and "e = SD_ERR_IO"
      and "stored s' = stored s \<or> (\<exists>k\<le>length ?b. stored s' = Some (take k ?b))" using assms(3) by auto
    then consider "stored s' = stored s" | k where "k < length ?b" "stored s' = Some (take k ?b)"
      | "stored s' = Some ?b"
      by (metis le_neq_implies_less take_all_iff order_refl)
    then show ?thesis
    proof cases
      case 1
      then show ?thesis using load_same [OF 1 assms(3) r] False \<open>e = SD_ERR_IO\<close> by simp
    next
      case 2
      then show ?thesis
        using load_short [OF 2(2) r] len False \<open>e = SD_ERR_IO\<close> by simp
    qed (use False \<open>e = SD_ERR_IO\<close> load_blob [of s' d c] r assms(2) in auto)
  qed
qed

end

text \<open>The file store obeys the contract.\<close>

definition host_sound :: "host_fs \<Rightarrow> bool" where
  "host_sound fs \<longleftrightarrow> rd_fail fs = None \<and> wr_limit fs \<le> flush_limit fs"

interpretation host: config_store host_store fs_file host_sound
proof unfold_locales
  fix s b e s' assume "st_write host_store s b = (e, s')" and "e \<noteq> SD_OK"
  then show "e = SD_ERR_IO \<and> (host_sound s' \<longleftrightarrow> host_sound s) \<and>
      (fs_file s' = fs_file s \<or> (\<exists>k \<le> length b. fs_file s' = Some (take k b)))"
    by (cases "wr_open s")
      (auto simp: host_store_def host_store_write_def host_sound_def Let_def
        intro!: exI [of _ "min (length b) (min (wr_limit s) (flush_limit s))"] split: if_splits)
qed (auto simp: host_sound_def host_store_def host_store_read_def host_store_write_def Let_def min_def
      split: option.splits if_splits)

text \<open>
  The same store on a disk of many files, as \<open>config_path\<close> selects one: it obeys the contract, and
  a write leaves every other file alone.
\<close>

definition disk_store :: "string option \<Rightarrow> (string \<Rightarrow> host_fs) store_ops" where
  "disk_store env =
     \<lparr>st_read = (\<lambda>d cap. st_read host_store (d (config_path env)) cap),
      st_write = (\<lambda>d bs. case st_write host_store (d (config_path env)) bs of (e, f) \<Rightarrow>
        (e, d(config_path env := f)))\<rparr>"

interpretation disk: config_store "disk_store env" "\<lambda>d. fs_file (d (config_path env))" "\<lambda>d. host_sound (d (config_path env))"
  for env
proof unfold_locales
  fix d b e d' assume "st_write (disk_store env) d b = (e, d')" "e \<noteq> SD_OK"
  then show "e = SD_ERR_IO \<and> (host_sound (d' (config_path env)) \<longleftrightarrow> host_sound (d (config_path env))) \<and>
      (fs_file (d' (config_path env)) = fs_file (d (config_path env)) \<or>
       (\<exists>k \<le> length b. fs_file (d' (config_path env)) = Some (take k b)))"
    using host.write_err [of "d (config_path env)" b e "d' (config_path env)"]
    by (auto simp: disk_store_def split: prod.splits)
next
  fix d b d' assume "st_write (disk_store env) d b = (SD_OK, d')" "host_sound (d (config_path env))"
  then show "fs_file (d' (config_path env)) = Some b \<and> (host_sound (d' (config_path env)) \<longleftrightarrow> host_sound (d (config_path env)))"
    using host.write_ok by (auto simp: disk_store_def split: prod.splits)
qed (simp_all add: disk_store_def host.read_fits host.read_error [simplified] host.read_none
    host.read_some host.read_big)

lemma disk_write_elsewhere:
  "st_write (disk_store env) d b = (e, d') \<Longrightarrow> path \<noteq> config_path env \<Longrightarrow> d' path = d path"
  by (auto simp: disk_store_def split: prod.splits)

section \<open>Properties of the configuration\<close>



text \<open>
  C22: the result of \<open>fclose\<close> is not checked: when the buffered bytes do not reach the medium (a full
  disk), the save reports \<open>SD_OK\<close>, the previous configuration is gone and the next load silently
  starts from the defaults.
\<close>

theorem sd_config_save_lost:
  assumes "config_ok d" and "wr_open fs" and "BLOB_BYTES \<le> wr_limit fs" and "flush_limit fs < BLOB_BYTES"
    and "rd_fail fs = None"
  shows "\<exists>fs'. sd_config_save host_store fs (Some d) = (SD_OK, fs') \<and>
    sd_config_load host_store fs' (Some c) = (SD_OK, Some sd_config_defaults)"
proof -
  define b where "b = le32 SD_CONFIG_VERSION @ struct_bytes d"
  have len: "length b = BLOB_BYTES"
    using assms(1) by (simp add: b_def length_le length_struct_bytes BLOB_BYTES_def VERSION_BYTES_def)
  have "sd_config_save host_store fs (Some d) = (SD_OK, fs\<lparr>fs_file := Some (take (flush_limit fs) b)\<rparr>)"
    using assms(2-4) len
    by (simp add: sd_config_save_def host_store_def host_store_write_def Let_def b_def [symmetric])
  then show ?thesis
    using assms(4,5) len by (auto simp: sd_config_load_def host_store_def host_store_read_def Let_def)
qed

theorem sd_config_save_lost_witness:
  "let fs = \<lparr>fs_file = None, rd_fail = None, wr_open = True, wr_limit = 4096, flush_limit = 0\<rparr>
   in \<exists>fs'. sd_config_save host_store fs (Some (sd_config_defaults\<lparr>server_port := 1\<rparr>)) = (SD_OK, fs') \<and>
    sd_config_load host_store fs' (Some sd_config_defaults) = (SD_OK, Some sd_config_defaults)"
  unfolding Let_def using config_ok_defaults
  by (intro sd_config_save_lost) (simp_all add: config_ok_def BLOB_BYTES_def VERSION_BYTES_def)

text \<open>
  C23: whatever bytes the store holds, a load returns a well-formed configuration (every string
  field terminated inside its array); the only error is an I/O error of the store, and it comes with the
  defaults.
\<close>

theorem sd_config_load_total:
  "\<exists>e d. sd_config_load host_store fs (Some c) = (e, Some d) \<and> config_ok d \<and> e \<in> {SD_OK, SD_ERR_IO} \<and>
     (e \<noteq> SD_OK \<longrightarrow> d = sd_config_defaults)"
  by (rule host.load_ok)

theorem sd_config_load_total_witness:
  "\<exists>e d. sd_config_load host_store \<lparr>fs_file = Some [1, 0, 0, 0, 7], rd_fail = None, wr_open = True, wr_limit = 0, flush_limit = 0\<rparr>
      (Some sd_config_defaults) = (e, Some d) \<and> config_ok d \<and> e \<in> {SD_OK, SD_ERR_IO} \<and>
     (e \<noteq> SD_OK \<longrightarrow> d = sd_config_defaults)"
  by (rule sd_config_load_total)

text \<open>
  Setting a string field to a value that fits stores exactly that value, keeps every other
  field and the invariant, and \<open>sd_config_get_field\<close> returns it cut to the caller's buffer; a longer
  value is refused and changes nothing.
\<close>

theorem sd_config_set_get:
  assumes "config_ok c" and "string_key k" and "nul_free v" and "buf \<noteq> []"
  shows "if length v \<le> max_len k
    then \<exists>d. sd_config_set_field (Some c) (Some k) (Some v) = (SD_OK, Some d) \<and> config_ok d \<and>
      (\<forall>k'. field_text d k' = (if k' = k then Some v else field_text c k')) \<and>
      sd_config_get_field (Some d) (Some k) (Some buf) = (SD_OK, Some (snprintf_str buf v))
    else sd_config_set_field (Some c) (Some k) (Some v) = (SD_ERR_INVALID, Some c)"
  using set_string_field [OF assms(1-3)] assms(4) by (auto simp: get_field_text)

theorem sd_config_set_get_witness:
  "if length ''net'' \<le> max_len ''wifi_ssid''
    then \<exists>d. sd_config_set_field (Some sd_config_defaults) (Some ''wifi_ssid'') (Some ''net'') = (SD_OK, Some d) \<and> config_ok d \<and>
      (\<forall>k'. field_text d k' = (if k' = ''wifi_ssid'' then Some ''net'' else field_text sd_config_defaults k')) \<and>
      sd_config_get_field (Some d) (Some ''wifi_ssid'') (Some [NUL, NUL]) = (SD_OK, Some (snprintf_str [NUL, NUL] ''net''))
    else sd_config_set_field (Some sd_config_defaults) (Some ''wifi_ssid'') (Some ''net'') = (SD_ERR_INVALID, Some sd_config_defaults)"
  by (rule sd_config_set_get) (simp_all add: config_ok_defaults string_key_def)

lemma strtol_rest: "set (snd (strtol s)) \<subseteq> set s"
proof -
  have d: "set (dropWhile P xs) \<subseteq> set xs" for P and xs :: string
    by (auto dest: set_dropWhileD)
  have t: "set (tl xs) \<subseteq> set xs" for xs :: string
    by (cases xs) auto
  have "set (dropWhile is_digit (if b then tl (dropWhile is_space s) else dropWhile is_space s)) \<subseteq> set s" for b
    using d [of is_digit "tl (dropWhile is_space s)"] d [of is_digit "dropWhile is_space s"] d [of is_space s]
      t [of "dropWhile is_space s"] by (cases b) auto
  then show ?thesis by (simp add: strtol_def Let_def)
qed


end
