(* ===== verification/Transport.thy ===== *)
theory Transport
  imports Core
begin

text \<open>
  The transport HAL (\<open>include/sudonit/hal/transport.h\<close>) as an interface, and its host TCP
  backend (\<open>src/hal/host/transport_tcp.c\<close>): connecting over the resolved addresses, the
  all-or-nothing send and receive loops, and the handle's life cycle. The kernel is the
  environment: a socket carries the script of what its next \<open>recv\<close> and \<open>send\<close> calls meet,
  so quantifying over sockets quantifies over everything the peer and the kernel can do.
\<close>

section \<open>Pointer and length arguments\<close>

text \<open>
  A \<open>(pointer, length)\<close> argument pair: a NULL pointer with the length passed beside it, or
  memory with its bytes. \<open>Mem bs\<close> is read completely, so it cannot be over-read.
\<close>

datatype span = Null nat | Mem "byte list"

fun span_len :: "span \<Rightarrow> nat" where
  "span_len (Null n) = n"
| "span_len (Mem bs) = length bs"

fun span_bytes :: "span \<Rightarrow> byte list" where
  "span_bytes (Null n) = []"
| "span_bytes (Mem bs) = bs"

text \<open>The recurring argument check \<open>!buf && len > 0\<close>.\<close>

fun span_bad :: "span \<Rightarrow> bool" where
  "span_bad (Null n) = (n > 0)"
| "span_bad (Mem bs) = False"

lemma span_not_bad_len [simp]: "\<not> span_bad s \<Longrightarrow> length (span_bytes s) = span_len s"
  by (cases s) auto

section \<open>The HAL interface\<close>

text \<open>
  The operations the protocol layer links against: the NULL test of a handle, \<open>sd_transport_send\<close>
  and \<open>sd_transport_recv\<close>. A backend threads its connection state \<open>'t\<close> through the calls.
\<close>

record 't transport_ops =
  t_null :: "'t \<Rightarrow> bool"
  t_send :: "'t \<Rightarrow> span \<Rightarrow> sd_err \<times> 't"
  t_recv :: "'t \<Rightarrow> nat \<Rightarrow> sd_err \<times> byte list \<times> 't"

text \<open>
  The contract of the header: a reliable, ordered byte stream whose calls move exactly the
  requested bytes or return an error. \<open>incoming t\<close> are the bytes the connection will still
  deliver before it fails or falls silent, \<open>sent t\<close> the bytes handed to the wire so far.
\<close>

locale transport_hal =
  fixes io :: "'t transport_ops"
    and incoming :: "'t \<Rightarrow> byte list"
    and sent :: "'t \<Rightarrow> byte list"
  assumes recv_ok: "t_recv io t n = (SD_OK, bs, t') \<Longrightarrow>
      \<not> t_null io t' \<and> length bs = n \<and> incoming t = bs @ incoming t'"
    and recv_sent: "t_recv io t n = (e, bs, t') \<Longrightarrow> sent t' = sent t"
    and recv_enough: "\<not> t_null io t \<Longrightarrow> n \<le> length (incoming t) \<Longrightarrow> fst (t_recv io t n) = SD_OK"
    and recv_short: "\<not> t_null io t \<Longrightarrow> length (incoming t) < n \<Longrightarrow>
      fst (t_recv io t n) \<in> {SD_ERR_IO, SD_ERR_TIMEOUT}"
    and recv_null: "t_null io t \<Longrightarrow> t_recv io t n = (SD_ERR_INVALID, [], t)"
    and send_ok: "t_send io t s = (SD_OK, t') \<Longrightarrow>
      \<not> t_null io t \<and> \<not> span_bad s \<and> \<not> t_null io t' \<and>
      sent t' = sent t @ span_bytes s \<and> incoming t' = incoming t"
    and send_err: "t_send io t s = (e, t') \<Longrightarrow> e \<noteq> SD_OK \<Longrightarrow>
      e \<in> {SD_ERR_INVALID, SD_ERR_IO, SD_ERR_TIMEOUT} \<and>
      (\<exists>k \<le> span_len s. sent t' = sent t @ take k (span_bytes s))"
begin

text \<open>Everything a client needs about a read, in one case distinction.\<close>

lemma recv_cases:
  assumes "\<not> t_null io t"
  obtains (ok) t' where "n \<le> length (incoming t)"
      "t_recv io t n = (SD_OK, take n (incoming t), t')" "\<not> t_null io t'"
      "incoming t' = drop n (incoming t)" "sent t' = sent t"
  | (short) e bs t' where "length (incoming t) < n" "t_recv io t n = (e, bs, t')"
      "e \<in> {SD_ERR_IO, SD_ERR_TIMEOUT}" "sent t' = sent t"
proof (cases "n \<le> length (incoming t)")
  case True
  obtain e bs t' where r: "t_recv io t n = (e, bs, t')"
    by (cases "t_recv io t n")
  then have "e = SD_OK"
    using recv_enough [OF assms True] by simp
  with r have r': "t_recv io t n = (SD_OK, bs, t')" by simp
  have "\<not> t_null io t'" and split: "length bs = n" "incoming t = bs @ incoming t'"
    using recv_ok [OF r'] by auto
  moreover from split have "take n (incoming t) = bs" "drop n (incoming t) = incoming t'"
    by auto
  ultimately show thesis
    using ok [OF True, of t'] recv_sent [OF r'] r' by metis
next
  case False
  obtain e bs t' where r: "t_recv io t n = (e, bs, t')"
    by (cases "t_recv io t n")
  then show thesis
    using short [of e bs t'] recv_short [OF assms, of n] recv_sent [OF r] False by simp
qed

lemma recv_total_error:
  "fst (t_recv io t n) \<in> {SD_OK, SD_ERR_INVALID, SD_ERR_IO, SD_ERR_TIMEOUT}"
proof (cases "t_null io t")
  case True
  then show ?thesis by (simp add: recv_null)
next
  case False
  then show ?thesis by (rule recv_cases [of t n]) auto
qed

end

section \<open>The kernel's side of a socket\<close>

text \<open>
  One event answers one \<open>recv\<close> call: a segment of the stream (what the call does not take
  stays queued; an empty segment is the peer's orderly shutdown, \<open>n = 0\<close>), the expired receive
  timeout (\<open>n < 0\<close> with \<open>EAGAIN\<close> or \<open>EWOULDBLOCK\<close>), or another error. When the script is over
  the peer is silent and \<open>SO_RCVTIMEO\<close> expires. \<open>send\<close> accepts a prefix in the same way; past
  the end of its script the kernel takes whatever it is given.
\<close>

datatype rx_event = Rx_data "byte list" | Rx_again | Rx_fail

datatype tx_event = Tx_accept nat | Tx_again | Tx_fail

fun os_recv :: "nat \<Rightarrow> rx_event list \<Rightarrow> int \<times> bool \<times> byte list \<times> rx_event list" where
  "os_recv n [] = (-1, True, [], [])"
| "os_recv n (Rx_data bs # evs) =
     (int (length (take n bs)), False, take n bs,
      if drop n bs = [] then evs else Rx_data (drop n bs) # evs)"
| "os_recv n (Rx_again # evs) = (-1, True, [], evs)"
| "os_recv n (Rx_fail # evs) = (-1, False, [], evs)"

fun os_send :: "nat \<Rightarrow> tx_event list \<Rightarrow> int \<times> bool \<times> tx_event list" where
  "os_send len [] = (int len, False, [])"
| "os_send len (Tx_accept k # evs) = (int (min k len), False, evs)"
| "os_send len (Tx_again # evs) = (-1, True, evs)"
| "os_send len (Tx_fail # evs) = (-1, False, evs)"

text \<open>A connected socket: what will arrive, how sends will fare, and the bytes sent.\<close>

record sock =
  rx :: "rx_event list"
  tx :: "tx_event list"
  wire :: "byte list"

section \<open>Sending and receiving\<close>

text \<open>
  \<open>while (got < len)\<close> of \<open>sd_transport_recv\<close>: \<open>acc\<close> is the part of the buffer filled so far,
  \<open>got = length acc\<close>.
\<close>

function recv_loop :: "nat \<Rightarrow> byte list \<Rightarrow> rx_event list \<Rightarrow> sd_err \<times> byte list \<times> rx_event list" where
  "recv_loop len acc evs =
     (if length acc < len then
        (case os_recv (len - length acc) evs of (n, again, bs, evs') \<Rightarrow>
           if n < 0 \<and> again then (SD_ERR_TIMEOUT, acc, evs')
           else if n \<le> 0 then (SD_ERR_IO, acc, evs')
           else recv_loop len (acc @ bs) evs')
      else (SD_OK, acc, evs))"
  by pat_completeness auto
termination
proof (relation "measure (\<lambda>(len, acc, evs). len - length acc)", goal_cases)
  case (2 len acc evs n p again q bs evs')
  then have "os_recv (len - length acc) evs = (n, again, bs, evs')" and "0 < n" by auto
  then have "bs \<noteq> []"
    by (cases "(len - length acc, evs)" rule: os_recv.cases) auto
  with 2 show ?case
    by (cases bs) auto
qed auto

declare recv_loop.simps [simp del]

definition sd_transport_recv ::
    "sock option \<Rightarrow> bool \<Rightarrow> nat \<Rightarrow> sd_err \<times> byte list \<times> sock option" where
  "sd_transport_recv t buf len =
     (case t of
        None \<Rightarrow> (SD_ERR_INVALID, [], None)
      | Some s \<Rightarrow>
          if \<not> buf \<and> len > 0 then (SD_ERR_INVALID, [], t)
          else (case recv_loop len [] (rx s) of (e, bs, evs) \<Rightarrow> (e, bs, Some (s\<lparr>rx := evs\<rparr>))))"

text \<open>\<open>while (sent < len)\<close> of \<open>sd_transport_send\<close>, the bytes the kernel took appended to \<open>out\<close>.\<close>

function send_loop ::
    "byte list \<Rightarrow> nat \<Rightarrow> tx_event list \<Rightarrow> byte list \<Rightarrow> sd_err \<times> tx_event list \<times> byte list" where
  "send_loop buf sent evs out =
     (if sent < length buf then
        (case os_send (length buf - sent) evs of (n, again, evs') \<Rightarrow>
           if n < 0 \<and> again then (SD_ERR_TIMEOUT, evs', out)
           else if n \<le> 0 then (SD_ERR_IO, evs', out)
           else send_loop buf (sent + nat n) evs' (out @ take (nat n) (drop sent buf)))
      else (SD_OK, evs, out))"
  by pat_completeness auto
termination
  by (relation "measure (\<lambda>(buf, sent, evs, out). length buf - sent)") auto

declare send_loop.simps [simp del]

definition sd_transport_send :: "sock option \<Rightarrow> span \<Rightarrow> sd_err \<times> sock option" where
  "sd_transport_send t s =
     (case t of
        None \<Rightarrow> (SD_ERR_INVALID, None)
      | Some c \<Rightarrow>
          if span_bad s then (SD_ERR_INVALID, t)
          else (case send_loop (span_bytes s) 0 (tx c) (wire c) of
                  (e, evs, out) \<Rightarrow> (e, Some (c\<lparr>tx := evs, wire := out\<rparr>))))"

text \<open>The host backend as an instance of the HAL. Frame buffers are never NULL.\<close>

definition tcp :: "sock option transport_ops" where
  "tcp = \<lparr>t_null = (\<lambda>t. t = None), t_send = sd_transport_send,
          t_recv = (\<lambda>t n. sd_transport_recv t True n)\<rparr>"

subsection \<open>What the loops move\<close>

text \<open>The stream a script still delivers: its data up to the first failure or shutdown.\<close>

fun stream :: "rx_event list \<Rightarrow> byte list" where
  "stream (Rx_data bs # evs) = (if bs = [] then [] else bs @ stream evs)"
| "stream _ = []"

lemma os_recv_cases:
  assumes "os_recv k evs = (n, again, bs, evs')" and "0 < k"
  shows "(0 < n \<and> bs \<noteq> [] \<and> length bs \<le> k \<and> stream evs = bs @ stream evs') \<or>
         (n \<le> 0 \<and> stream evs = [])"
  using assms by (cases "(k, evs)" rule: os_recv.cases) (auto split: if_splits)

lemma recv_loop_ok:
  "recv_loop len acc evs = (SD_OK, out, evs') \<Longrightarrow> length acc \<le> len \<Longrightarrow>
     \<exists>bs. out = acc @ bs \<and> length out = len \<and> stream evs = bs @ stream evs'"
proof (induction len acc evs rule: recv_loop.induct)
  case (1 len acc evs)
  show ?case
  proof (cases "length acc < len")
    case False
    with "1.prems" show ?thesis by (simp add: recv_loop.simps)
  next
    case True
    obtain n again bs evs1 where r: "os_recv (len - length acc) evs = (n, again, bs, evs1)"
      by (cases "os_recv (len - length acc) evs") auto
    from True "1.prems" r have n: "\<not> n \<le> 0" and
      rec: "recv_loop len (acc @ bs) evs1 = (SD_OK, out, evs')"
      by (auto simp: recv_loop.simps [of len acc] split: if_splits)
    from os_recv_cases [OF r] True n have bs: "length bs \<le> len - length acc"
      "stream evs = bs @ stream evs1" by auto
    from n have "\<not> (n < 0 \<and> again)" and "length (acc @ bs) \<le> len"
      using bs True by auto
    from "1.IH" [OF True r [symmetric] refl refl this(1) n rec this(2)]
    obtain cs where "out = (acc @ bs) @ cs" "length out = len" "stream evs1 = cs @ stream evs'"
      by blast
    with bs show ?thesis by auto
  qed
qed

lemma recv_loop_enough:
  "len \<le> length acc + length (stream evs) \<Longrightarrow> fst (recv_loop len acc evs) = SD_OK"
proof (induction len acc evs rule: recv_loop.induct)
  case (1 len acc evs)
  show ?case
  proof (cases "length acc < len")
    case False
    then show ?thesis by (simp add: recv_loop.simps)
  next
    case True
    obtain n again bs evs1 where r: "os_recv (len - length acc) evs = (n, again, bs, evs1)"
      by (cases "os_recv (len - length acc) evs") auto
    have "stream evs \<noteq> []"
      using True "1.prems" by auto
    with os_recv_cases [OF r] True have n: "\<not> n \<le> 0" "\<not> (n < 0 \<and> again)"
      and bs: "stream evs = bs @ stream evs1"
      by auto
    have "fst (recv_loop len (acc @ bs) evs1) = SD_OK"
      using "1.IH" [OF True r [symmetric] refl refl n(2,1)] "1.prems" bs by simp
    with True r n show ?thesis by (simp add: recv_loop.simps [of len acc])
  qed
qed

lemma recv_loop_result: "fst (recv_loop len acc evs) \<in> {SD_OK, SD_ERR_IO, SD_ERR_TIMEOUT}"
proof (induction len acc evs rule: recv_loop.induct)
  case (1 len acc evs)
  then show ?case
    by (subst recv_loop.simps) (auto split: prod.splits)
qed

lemma send_loop_ok:
  "send_loop buf k evs out = (SD_OK, evs', out') \<Longrightarrow> k \<le> length buf \<Longrightarrow> out' = out @ drop k buf"
proof (induction buf k evs out rule: send_loop.induct)
  case (1 buf k evs out)
  show ?case
  proof (cases "k < length buf")
    case False
    with "1.prems" show ?thesis by (simp add: send_loop.simps)
  next
    case True
    obtain n again evs1 where r: "os_send (length buf - k) evs = (n, again, evs1)"
      by (cases "os_send (length buf - k) evs") auto
    from True "1.prems" r have n: "\<not> n \<le> 0" "\<not> (n < 0 \<and> again)" and
      rec: "send_loop buf (k + nat n) evs1 (out @ take (nat n) (drop k buf)) = (SD_OK, evs', out')"
      by (auto simp: send_loop.simps [of buf k] split: if_splits)
    have "nat n \<le> length buf - k"
      using r by (cases "(length buf - k, evs)" rule: os_send.cases) auto
    then have "out' = out @ take (nat n) (drop k buf) @ drop (k + nat n) buf"
      using "1.IH" [OF True r [symmetric] refl n(2,1) rec] True by simp
    then show ?thesis by (metis append_take_drop_id drop_drop add.commute)
  qed
qed

lemma send_loop_err:
  "send_loop buf k evs out = (e, evs', out') \<Longrightarrow> e \<noteq> SD_OK \<Longrightarrow> k \<le> length buf \<Longrightarrow>
     e \<in> {SD_ERR_IO, SD_ERR_TIMEOUT} \<and>
     (\<exists>j. k \<le> j \<and> j \<le> length buf \<and> out' = out @ take (j - k) (drop k buf))"
proof (induction buf k evs out rule: send_loop.induct)
  case (1 buf k evs out)
  show ?case
  proof (cases "k < length buf")
    case False
    with "1.prems" show ?thesis by (simp add: send_loop.simps)
  next
    case True
    obtain n again evs1 where r: "os_send (length buf - k) evs = (n, again, evs1)"
      by (cases "os_send (length buf - k) evs") auto
    show ?thesis
    proof (cases "n \<le> 0")
      case n: True
      with True "1.prems" r have "out' = out @ take (k - k) (drop k buf)"
        "e \<in> {SD_ERR_IO, SD_ERR_TIMEOUT}"
        by (auto simp: send_loop.simps [of buf k] split: if_splits)
      with True show ?thesis by (blast intro: less_imp_le)
    next
      case n: False
      with True "1.prems" r have
        rec: "send_loop buf (k + nat n) evs1 (out @ take (nat n) (drop k buf)) = (e, evs', out')"
        by (auto simp: send_loop.simps [of buf k] split: if_splits)
      have le: "nat n \<le> length buf - k"
        using r by (cases "(length buf - k, evs)" rule: os_send.cases) auto
      from n have "\<not> (n < 0 \<and> again)" and "k + nat n \<le> length buf"
        using le True by auto
      from "1.IH" [OF True r [symmetric] refl this(1) n rec "1.prems"(2) this(2)]
      obtain j where j: "k + nat n \<le> j" "j \<le> length buf" "e \<in> {SD_ERR_IO, SD_ERR_TIMEOUT}"
        "out' = (out @ take (nat n) (drop k buf)) @ take (j - (k + nat n)) (drop (k + nat n) buf)"
        by blast
      moreover have "take (nat n) (drop k buf) @ take (j - (k + nat n)) (drop (k + nat n) buf) =
          take (j - k) (drop k buf)"
        using j(1) take_add [of "nat n" "j - (k + nat n)" "drop k buf"] by (simp add: add.commute)
      ultimately show ?thesis by (intro conjI exI [of _ j]) auto
    qed
  qed
qed

subsection \<open>The TCP backend meets the HAL contract\<close>

definition tcp_incoming :: "sock option \<Rightarrow> byte list" where
  "tcp_incoming t = (case t of None \<Rightarrow> [] | Some s \<Rightarrow> stream (rx s))"

definition tcp_sent :: "sock option \<Rightarrow> byte list" where
  "tcp_sent t = (case t of None \<Rightarrow> [] | Some s \<Rightarrow> wire s)"

lemma tcp_simps [simp]:
  "t_null tcp t \<longleftrightarrow> t = None"
  "t_send tcp t s = sd_transport_send t s"
  "t_recv tcp t n = sd_transport_recv t True n"
  "tcp_incoming (Some c) = stream (rx c)" "tcp_sent (Some c) = wire c"
  by (simp_all add: tcp_def tcp_incoming_def tcp_sent_def)

lemmas transport_unfold = sd_transport_recv_def sd_transport_send_def

interpretation tcp: transport_hal tcp tcp_incoming tcp_sent
proof unfold_locales
  fix t n bs t' assume "t_recv tcp t n = (SD_OK, bs, t')"
  then show "\<not> t_null tcp t' \<and> length bs = n \<and> tcp_incoming t = bs @ tcp_incoming t'"
    by (auto simp: transport_unfold split: option.splits prod.splits dest!: recv_loop_ok)
next
  fix t n e bs t' assume "t_recv tcp t n = (e, bs, t')"
  then show "tcp_sent t' = tcp_sent t"
    by (auto simp: transport_unfold split: option.splits prod.splits)
next
  fix t n assume "\<not> t_null tcp t" and "n \<le> length (tcp_incoming t)"
  then show "fst (t_recv tcp t n) = SD_OK"
    using recv_loop_enough [of n "[]"]
    by (auto simp: transport_unfold split: option.splits prod.splits) (metis fst_conv)
next
  fix t n assume t: "\<not> t_null tcp t" and short: "length (tcp_incoming t) < n"
  then obtain c where c: "t = Some c" by auto
  obtain e bs evs where r: "recv_loop n [] (rx c) = (e, bs, evs)"
    by (cases "recv_loop n [] (rx c)")
  then have "e \<noteq> SD_OK"
    using recv_loop_ok [of n "[]" "rx c" bs evs] short c by auto
  then show "fst (t_recv tcp t n) \<in> {SD_ERR_IO, SD_ERR_TIMEOUT}"
    using recv_loop_result [of n "[]" "rx c"] r c by (auto simp: transport_unfold)
next
  fix t n assume "t_null tcp t"
  then show "t_recv tcp t n = (SD_ERR_INVALID, [], t)"
    by (simp add: transport_unfold)
next
  fix t s t' assume "t_send tcp t s = (SD_OK, t')"
  then show "\<not> t_null tcp t \<and> \<not> span_bad s \<and> \<not> t_null tcp t' \<and>
      tcp_sent t' = tcp_sent t @ span_bytes s \<and> tcp_incoming t' = tcp_incoming t"
    by (auto simp: transport_unfold split: option.splits prod.splits if_splits dest!: send_loop_ok)
next
  fix t s e t' assume r: "t_send tcp t s = (e, t')" and e: "e \<noteq> SD_OK"
  show "e \<in> {SD_ERR_INVALID, SD_ERR_IO, SD_ERR_TIMEOUT} \<and>
      (\<exists>k \<le> span_len s. tcp_sent t' = tcp_sent t @ take k (span_bytes s))"
  proof (cases "t = None \<or> span_bad s")
    case True
    with r have "tcp_sent t' = tcp_sent t @ take 0 (span_bytes s)" "e = SD_ERR_INVALID"
      by (cases t; auto simp: transport_unfold)+
    then show ?thesis by blast
  next
    case False
    then obtain c evs out where c: "t = Some c" and s: "send_loop (span_bytes s) 0 (tx c) (wire c) = (e, evs, out)"
      and t': "t' = Some (c\<lparr>tx := evs, wire := out\<rparr>)"
      using r by (auto simp: transport_unfold split: prod.splits)
    from send_loop_err [OF s e] False c t' show ?thesis by auto
  qed
qed

text \<open>What a write of memory through an open TCP handle can return.\<close>

lemma tcp_send_mem:
  "sd_transport_send (Some u) (Mem v) = (e, t') \<Longrightarrow>
     (\<exists>u'. t' = Some u' \<and> rx u' = rx u) \<and> e \<in> {SD_OK, SD_ERR_IO, SD_ERR_TIMEOUT}"
  using send_loop_err [of v 0 "tx u" "wire u" e]
  by (auto simp: sd_transport_send_def split: prod.splits)

text \<open>
  A receive of \<open>n\<close> bytes over TCP returns exactly the next \<open>n\<close> bytes of the stream and leaves
  the rest, however the kernel segments them, when the peer delivers that many; otherwise it
  returns an I/O or timeout error.
\<close>

theorem sd_transport_recv_exact:
  "if n \<le> length (stream (rx s))
   then \<exists>s'. sd_transport_recv (Some s) True n = (SD_OK, take n (stream (rx s)), Some s') \<and>
          stream (rx s') = drop n (stream (rx s)) \<and> wire s' = wire s
   else fst (sd_transport_recv (Some s) True n) \<in> {SD_ERR_IO, SD_ERR_TIMEOUT}"
proof -
  have "\<not> t_null tcp (Some s)" by simp
  then show ?thesis
    by (cases rule: tcp.recv_cases [where t = "Some s" and n = n]) auto
qed

end
