(* ===== verification/Hal.thy ===== *)
theory Hal
  imports Config Transport
begin

text \<open>
  The peripherals behind the device application: the camera, battery and audio interfaces
  (\<open>include/sudonit/hal/*.h\<close>) as a record of operations with their contract, and the mock
  backends of the host build (\<open>src/hal/mock/\<close>), whose static variables are one state record.
\<close>

section \<open>The interface\<close>

text \<open>An image buffer is memory owned by the camera, or NULL with length 0.\<close>

record sd_image =
  media_type :: "string option"
  img_data :: span
  img_width :: "16 word"
  img_height :: "16 word"

definition zero_image :: sd_image where
  "zero_image = \<lparr>media_type = None, img_data = Null 0, img_width = 0, img_height = 0\<rparr>"

record 'h hal_ops =
  h_camera_name :: string
  h_battery_name :: string
  h_camera_init :: "'h \<Rightarrow> sd_err \<times> 'h"
  h_battery_init :: "'h \<Rightarrow> sd_err \<times> 'h"
  h_battery_read :: "'h \<Rightarrow> sd_err \<times> 8 word"
  h_capture :: "'h \<Rightarrow> sd_image \<Rightarrow> sd_err \<times> sd_image \<times> 'h"
  h_release :: "'h \<Rightarrow> sd_image \<Rightarrow> sd_image \<times> 'h"
  h_audio_init :: "'h \<Rightarrow> u32 \<Rightarrow> 8 word \<Rightarrow> sd_err \<times> 'h"
  h_play :: "'h \<Rightarrow> span \<Rightarrow> nat \<Rightarrow> sd_err \<times> 'h"
  h_log :: "'h \<Rightarrow> log_line list"

text \<open>The lines a backend logged between two of its states.\<close>

definition backend_log :: "'h hal_ops \<Rightarrow> 'h \<Rightarrow> 'h \<Rightarrow> log_line list" where
  "backend_log hal h h' = drop (length (h_log hal h)) (h_log hal h')"

text \<open>
  The contract: a successful capture hands out one buffer that its release takes back, nothing
  else touches the buffers, the percentage is at most 100, and audio without a channel is refused.
\<close>

locale device_hal =
  fixes hal :: "'h hal_ops"
    and live :: "'h \<Rightarrow> nat"
    and sane :: "'h \<Rightarrow> bool"
  assumes init: "h_camera_init hal h = (e, h') \<Longrightarrow> live h' = live h \<and> (sane h \<longrightarrow> sane h')"
    and battery: "h_battery_init hal h = (e, h') \<Longrightarrow> live h' = live h \<and> (sane h \<longrightarrow> sane h')"
    and percent: "sane h \<Longrightarrow> h_battery_read hal h = (SD_OK, p) \<Longrightarrow> p \<le> 100"
    and capture_ok: "h_capture hal h img = (SD_OK, img', h') \<Longrightarrow>
      live h' = Suc (live h) \<and> (sane h \<longrightarrow> sane h') \<and> (\<exists>d. img_data img' = Mem d)"
    and capture_err: "h_capture hal h img = (e, img', h') \<Longrightarrow> e \<noteq> SD_OK \<Longrightarrow>
      live h' = live h \<and> (sane h \<longrightarrow> sane h')"
    and release: "h_release hal h img = (img', h') \<Longrightarrow> img_data img = Mem d \<Longrightarrow> 0 < live h \<Longrightarrow>
      live h' = live h - 1 \<and> (sane h \<longrightarrow> sane h') \<and> img_data img' = Null 0"
    and audio: "h_audio_init hal h rate ch = (e, h') \<Longrightarrow>
      live h' = live h \<and> (sane h \<longrightarrow> sane h') \<and> (e = SD_OK \<longrightarrow> ch \<noteq> 0)"
    and play: "h_play hal h samples n = (e, h') \<Longrightarrow> live h' = live h \<and> (sane h \<longrightarrow> sane h')"

section \<open>The mock backends\<close>

text \<open>
  The static variables of the three files, the number of image buffers not yet freed, what the
  next calls of \<open>malloc\<close> answer (none left: they succeed) and \<open>SUDONIT_MOCK_BATTERY\<close>.
\<close>

record mock =
  cam_initialized :: bool
  cam_live :: nat
  cam_mem :: "bool list"
  s_percent :: "8 word"
  battery_env :: "string option"
  aud_initialized :: bool
  s_sample_rate :: u32
  s_channels :: "8 word"
  s_frames_played :: nat

definition MOCK_W :: nat where "MOCK_W = 64"
definition MOCK_H :: nat where "MOCK_H = 48"

definition mock_camera_init :: "mock \<Rightarrow> sd_err \<times> mock" where
  "mock_camera_init h = (SD_OK, h\<lparr>cam_initialized := True\<rparr>)"

text \<open>Both loops of the gradient, row by row.\<close>

definition mock_pixels :: "byte list" where
  "mock_pixels = concat (map (\<lambda>y. concat (map (\<lambda>x.
     [of_nat (x * 255 div MOCK_W), of_nat (y * 255 div MOCK_H), 128]) [0..<MOCK_W])) [0..<MOCK_H])"

definition mock_capture :: "mock \<Rightarrow> sd_image option \<Rightarrow> sd_err \<times> sd_image option \<times> mock" where
  "mock_capture h out =
     (case out of None \<Rightarrow> (SD_ERR_INVALID, None, h)
      | Some img \<Rightarrow>
          if \<not> cam_initialized h then (SD_ERR_AGAIN, out, h)
          else (let ok = (case cam_mem h of [] \<Rightarrow> True | b # _ \<Rightarrow> b);
                    h = h\<lparr>cam_mem := tl (cam_mem h)\<rparr>
                in if \<not> ok then (SD_ERR_NO_MEM, out, h)
                   else (SD_OK,
                     Some \<lparr>media_type = Some ''image/x-mock-rgb'', img_data = Mem mock_pixels,
                           img_width = of_nat MOCK_W, img_height = of_nat MOCK_H\<rparr>,
                     h\<lparr>cam_live := Suc (cam_live h)\<rparr>)))"

definition mock_release :: "mock \<Rightarrow> sd_image option \<Rightarrow> sd_image option \<times> mock" where
  "mock_release h img =
     (case img of None \<Rightarrow> (None, h)
      | Some i \<Rightarrow>
          (case img_data i of
             Null n \<Rightarrow> (img, h)
           | Mem d \<Rightarrow> (Some (i\<lparr>img_data := Null 0\<rparr>), h\<lparr>cam_live := cam_live h - 1\<rparr>)))"

text \<open>\<open>atoi\<close>: \<open>strtol\<close> converted to a 32-bit \<open>int\<close>.\<close>

definition atoi :: "string \<Rightarrow> int" where
  "atoi s = sint (word_of_int (fst (strtol s)) :: u32)"

definition mock_battery_init :: "mock \<Rightarrow> sd_err \<times> mock" where
  "mock_battery_init h =
     (SD_OK, case battery_env h of None \<Rightarrow> h
      | Some s \<Rightarrow>
          (let v = atoi s;
               v = (if v < 0 then 0 else v);
               v = (if v > 100 then 100 else v)
           in h\<lparr>s_percent := word_of_int v\<rparr>))"

definition mock_battery_read :: "mock \<Rightarrow> bool \<Rightarrow> sd_err \<times> 8 word" where
  "mock_battery_read h out = (if \<not> out then (SD_ERR_INVALID, 0) else (SD_OK, s_percent h))"

definition mock_audio_init :: "mock \<Rightarrow> u32 \<Rightarrow> 8 word \<Rightarrow> sd_err \<times> mock" where
  "mock_audio_init h sample_rate channels =
     (if sample_rate = 0 \<or> channels = 0 then (SD_ERR_INVALID, h)
      else (SD_OK, h\<lparr>s_sample_rate := sample_rate, s_channels := channels, s_frames_played := 0,
                     aud_initialized := True\<rparr>))"

definition mock_play :: "mock \<Rightarrow> span \<Rightarrow> nat \<Rightarrow> sd_err \<times> mock" where
  "mock_play h samples frame_count =
     (if \<not> aud_initialized h then (SD_ERR_AGAIN, h)
      else (case samples of
              Null n \<Rightarrow> if frame_count > 0 then (SD_ERR_INVALID, h)
                        else (SD_OK, h\<lparr>s_frames_played := s_frames_played h + frame_count\<rparr>)
            | Mem bs \<Rightarrow> (SD_OK, h\<lparr>s_frames_played := s_frames_played h + frame_count\<rparr>)))"

text \<open>The host build's static state before any call, and its operations.\<close>

definition DEFAULT_PERCENT :: "8 word" where "DEFAULT_PERCENT = 87"

definition mock_boot :: "bool list \<Rightarrow> string option \<Rightarrow> mock" where
  "mock_boot mem env =
     \<lparr>cam_initialized = False, cam_live = 0, cam_mem = mem, s_percent = DEFAULT_PERCENT, battery_env = env,
      aud_initialized = False, s_sample_rate = 0, s_channels = 0, s_frames_played = 0\<rparr>"

definition mock_camera_backend :: string where
  "mock_camera_backend = ''mock''"

definition mock_battery_backend :: string where
  "mock_battery_backend = ''mock''"

definition mock_hal :: "mock hal_ops" where
  "mock_hal =
     \<lparr>h_camera_name = mock_camera_backend, h_battery_name = mock_battery_backend,
      h_camera_init = mock_camera_init, h_battery_init = mock_battery_init,
      h_battery_read = (\<lambda>h. mock_battery_read h True),
      h_capture = (\<lambda>h img. case mock_capture h (Some img) of (e, i, h') \<Rightarrow> (e, the i, h')),
      h_release = (\<lambda>h img. case mock_release h (Some img) of (i, h') \<Rightarrow> (the i, h')),
      h_audio_init = mock_audio_init, h_play = mock_play, h_log = (\<lambda>h. [])\<rparr>"

lemma word_le_100: "0 \<le> v \<Longrightarrow> v \<le> 100 \<Longrightarrow> (word_of_int v :: 8 word) \<le> 100"
  by (simp add: word_le_def uint_word_of_int)

lemma battery_clamped: "mock_battery_init h = (e, h') \<Longrightarrow> s_percent h \<le> 100 \<Longrightarrow> s_percent h' \<le> 100"
  using word_le_100 by (auto simp: mock_battery_init_def Let_def split: option.splits)

lemma mock_simps [simp]:
  "h_camera_name mock_hal = ''mock''" "h_battery_name mock_hal = ''mock''"
  "h_camera_init mock_hal = mock_camera_init" "h_battery_init mock_hal = mock_battery_init"
  "h_battery_read mock_hal h = mock_battery_read h True" "h_audio_init mock_hal = mock_audio_init"
  "h_play mock_hal = mock_play" "backend_log mock_hal h1 h2 = []"
  by (simp_all add: mock_hal_def backend_log_def mock_camera_backend_def mock_battery_backend_def)

lemma mock_capture_hal:
  "h_capture mock_hal h img = (e, img', h') \<Longrightarrow> mock_capture h (Some img) = (e, Some img', h')"
  by (auto simp: mock_hal_def mock_capture_def Let_def split: prod.splits if_splits)

text \<open>
  The mocks obey the contract: the percentage starts at 87 and is clamped, so a sane state is
  one that holds at most 100.
\<close>

interpretation mock: device_hal mock_hal cam_live "\<lambda>h. s_percent h \<le> 100"
proof unfold_locales
  fix h img img' h' assume "h_capture mock_hal h img = (SD_OK, img', h')"
  then show "cam_live h' = Suc (cam_live h) \<and> (s_percent h \<le> 100 \<longrightarrow> s_percent h' \<le> 100) \<and>
      (\<exists>d. img_data img' = Mem d)"
    by (auto dest!: mock_capture_hal simp: mock_capture_def Let_def split: if_splits)
next
  fix h img e img' h' assume "h_capture mock_hal h img = (e, img', h')" "e \<noteq> SD_OK"
  then show "cam_live h' = cam_live h \<and> (s_percent h \<le> 100 \<longrightarrow> s_percent h' \<le> 100)"
    by (auto dest!: mock_capture_hal simp: mock_capture_def Let_def split: if_splits)
next
  fix h e h' assume "h_battery_init mock_hal h = (e, h')"
  then show "cam_live h' = cam_live h \<and> (s_percent h \<le> 100 \<longrightarrow> s_percent h' \<le> 100)"
    using battery_clamped [of h e h'] by (auto simp: mock_battery_init_def Let_def split: option.splits)
qed (auto simp: mock_hal_def mock_camera_init_def mock_battery_read_def mock_release_def mock_audio_init_def
    mock_play_def split: span.splits if_splits)

lemma mock_boot_sane: "s_percent (mock_boot mem env) \<le> 100"
  by (simp add: mock_boot_def DEFAULT_PERCENT_def word_le_nat_alt)

end
