(* ===== verification/Framing.thy ===== *)
theory Framing
  imports Transport
begin

text \<open>
  Wire framing (\<open>components/protocol/src/framing.c\<close>): \<open>[kind][length: uint32 big-endian][payload]\<close>
  over the transport HAL. The two operations are followed by an abstract reader of the byte
  stream; inside the HAL's locale the receive operation is proved to refine it on every branch.
\<close>

section \<open>The code\<close>

definition SD_KIND_JSON :: byte where "SD_KIND_JSON = 0x4A"

definition SD_KIND_BINARY :: byte where "SD_KIND_BINARY = 0x42"

definition SD_MAX_FRAME_BYTES :: nat where "SD_MAX_FRAME_BYTES = 8 * 1024 * 1024"

definition sd_frame_send :: "'t transport_ops \<Rightarrow> 't \<Rightarrow> byte \<Rightarrow> span \<Rightarrow> sd_err \<times> 't" where
  "sd_frame_send io t kind payload =
     (if kind \<noteq> SD_KIND_JSON \<and> kind \<noteq> SD_KIND_BINARY then (SD_ERR_INVALID, t)
      else if span_len payload > SD_MAX_FRAME_BYTES then (SD_ERR_INVALID, t)
      else (let hdr = kind # be32 (span_len payload)
            in case t_send io t (Mem hdr) of (err, t1) \<Rightarrow>
                 if err \<noteq> SD_OK then (err, t1)
                 else if span_len payload = 0 then (SD_OK, t1)
                 else t_send io t1 payload))"

text \<open>
  The out-parameters \<open>*kind_out\<close> and the payload (\<open>*len_out\<close> is its length) are meaningful with
  \<open>SD_OK\<close>; on the other returns the model gives \<open>0\<close> and \<open>[]\<close>.
\<close>

definition sd_frame_recv :: "'t transport_ops \<Rightarrow> 't \<Rightarrow> nat \<Rightarrow> sd_err \<times> byte \<times> byte list \<times> 't" where
  "sd_frame_recv io t cap =
     (case t_recv io t 5 of (err, hdr, t1) \<Rightarrow>
        if err \<noteq> SD_OK then (err, 0, [], t1)
        else (let kind = hdr ! 0
              in if kind \<noteq> SD_KIND_JSON \<and> kind \<noteq> SD_KIND_BINARY then (SD_ERR_IO, 0, [], t1)
                 else (let len = read_be32 (hdr ! 1) (hdr ! 2) (hdr ! 3) (hdr ! 4)
                       in if len > SD_MAX_FRAME_BYTES then (SD_ERR_IO, 0, [], t1)
                          else if len > cap then (SD_ERR_NO_MEM, 0, [], t1)
                          else if len > 0 then
                            (case t_recv io t1 len of (err, buf, t2) \<Rightarrow>
                               if err \<noteq> SD_OK then (err, 0, [], t2) else (SD_OK, kind, buf, t2))
                          else (SD_OK, kind, [], t1))))"

section \<open>The frame format, abstractly\<close>

definition kind_ok :: "byte \<Rightarrow> bool" where
  "kind_ok k \<longleftrightarrow> k = SD_KIND_JSON \<or> k = SD_KIND_BINARY"

definition encode_frame :: "byte \<Rightarrow> byte list \<Rightarrow> byte list" where
  "encode_frame k p = k # be32 (length p) @ p"

text \<open>
  What a reader with a buffer of \<open>cap\<close> bytes finds at the head of a stream: a frame and the rest,
  a header that no frame has, a frame too large for the buffer (its payload still ahead), or a
  stream that ends inside the frame.
\<close>

datatype frame_result =
    Frame byte "byte list" "byte list"
  | Malformed
  | Oversized "byte list"
  | Truncated

fun parse_frame :: "nat \<Rightarrow> byte list \<Rightarrow> frame_result" where
  "parse_frame cap (k # b0 # b1 # b2 # b3 # rest) =
     (let n = read_be32 b0 b1 b2 b3
      in if \<not> kind_ok k \<or> n > SD_MAX_FRAME_BYTES then Malformed
         else if n > cap then Oversized rest
         else if length rest < n then Truncated
         else Frame k (take n rest) (drop n rest))"
| "parse_frame cap _ = Truncated"

lemma kind_ok_simps [simp]: "kind_ok SD_KIND_JSON" "kind_ok SD_KIND_BINARY"
  by (simp_all add: kind_ok_def)

lemma kinds_differ [simp]: "SD_KIND_JSON \<noteq> SD_KIND_BINARY" "SD_KIND_BINARY \<noteq> SD_KIND_JSON"
  by (simp_all add: SD_KIND_JSON_def SD_KIND_BINARY_def)

lemma max_frame_32: "n \<le> SD_MAX_FRAME_BYTES \<Longrightarrow> n < 2 ^ 32"
  by (simp add: SD_MAX_FRAME_BYTES_def)

lemma length_encode_frame [simp]: "length (encode_frame k p) = 5 + length p"
  by (simp add: encode_frame_def)

lemma parse_encode_frame:
  assumes "kind_ok k" and "length p \<le> SD_MAX_FRAME_BYTES" and "length p \<le> cap"
  shows "parse_frame cap (encode_frame k p @ rest) = Frame k p rest"
proof -
  obtain b0 b1 b2 b3 where b: "be32 (length p) = [b0, b1, b2, b3]"
    by (simp add: be32_def)
  then have "read_be32 b0 b1 b2 b3 = length p"
    using assms(2) by (intro read_be32_of_be32 max_frame_32)
  then show ?thesis
    using assms b by (simp add: encode_frame_def)
qed

lemma parse_frame_sound:
  "parse_frame cap s = Frame k p rest \<Longrightarrow>
     s = encode_frame k p @ rest \<and> kind_ok k \<and> length p \<le> cap \<and> length p \<le> SD_MAX_FRAME_BYTES"
  by (cases "(cap, s)" rule: parse_frame.cases)
    (auto simp: Let_def encode_frame_def min_def split: if_splits)

section \<open>The operations meet the format\<close>

lemma take_five: "length xs = 5 \<Longrightarrow> xs = [xs ! 0, xs ! 1, xs ! 2, xs ! 3, xs ! 4]"
  by (auto simp: numeral_eq_Suc length_Suc_conv)

context transport_hal
begin

lemma frame_send_unfold:
  obtains (refused) "sd_frame_send io t k p = (SD_ERR_INVALID, t)"
      "\<not> kind_ok k \<or> span_len p > SD_MAX_FRAME_BYTES"
  | (header) e t' where "sd_frame_send io t k p = (e, t')" "e \<noteq> SD_OK"
      "t_send io t (Mem (k # be32 (span_len p))) = (e, t')"
  | (empty) t' where "sd_frame_send io t k p = (SD_OK, t')" "span_len p = 0" "kind_ok k"
      "t_send io t (Mem (k # be32 0)) = (SD_OK, t')"
  | (payload) t1 where "sd_frame_send io t k p = t_send io t1 p" "0 < span_len p" "kind_ok k"
      "span_len p \<le> SD_MAX_FRAME_BYTES" "t_send io t (Mem (k # be32 (span_len p))) = (SD_OK, t1)"
proof (cases "kind_ok k \<and> span_len p \<le> SD_MAX_FRAME_BYTES")
  case False
  then show thesis
    by (intro refused) (auto simp: sd_frame_send_def kind_ok_def)
next
  case True
  obtain e t1 where h: "t_send io t (Mem (k # be32 (span_len p))) = (e, t1)"
    by (cases "t_send io t (Mem (k # be32 (span_len p)))")
  show thesis
  proof (cases "e = SD_OK")
    case False
    with True h show thesis
      by (intro header [of e t1]) (auto simp: sd_frame_send_def kind_ok_def)
  next
    case ok: True
    show thesis
    proof (cases "span_len p = 0")
      case True
      with \<open>kind_ok k \<and> _\<close> h ok show thesis
        by (intro empty [of t1]) (auto simp: sd_frame_send_def kind_ok_def)
    next
      case False
      with \<open>kind_ok k \<and> _\<close> h ok show thesis
        by (intro payload [of t1]) (auto simp: sd_frame_send_def kind_ok_def)
    qed
  qed
qed

lemma frame_send_ok:
  assumes ok: "sd_frame_send io t k p = (SD_OK, t')"
  shows "kind_ok k \<and> \<not> span_bad p \<and> span_len p \<le> SD_MAX_FRAME_BYTES \<and> \<not> t_null io t' \<and>
    sent t' = sent t @ encode_frame k (span_bytes p) \<and> incoming t' = incoming t"
proof (cases rule: frame_send_unfold [of t k p])
  case (empty t1)
  then have "\<not> span_bad p" "span_bytes p = []" by (cases p; simp)+
  with empty ok send_ok [OF empty(4)] show ?thesis by (simp add: encode_frame_def)
next
  case (payload t1)
  with ok have "t_send io t1 p = (SD_OK, t')" by simp
  with payload send_ok [OF payload(5)] send_ok [OF this] show ?thesis
    by (simp add: encode_frame_def)
qed (use ok in auto)

text \<open>A failed send leaves a prefix of the frame on the wire.\<close>

lemma frame_send_err:
  assumes err: "sd_frame_send io t k p = (e, t')" and e: "e \<noteq> SD_OK"
  shows "e \<in> {SD_ERR_INVALID, SD_ERR_IO, SD_ERR_TIMEOUT} \<and>
    (\<exists>j. sent t' = sent t @ take j (k # be32 (span_len p) @ span_bytes p))"
proof (cases rule: frame_send_unfold [of t k p])
  case refused
  with err have "e = SD_ERR_INVALID" "sent t' = sent t @ take 0 (k # be32 (span_len p) @ span_bytes p)"
    by auto
  then show ?thesis by blast
next
  case (header e1 t1)
  with err have h: "t_send io t (Mem (k # be32 (span_len p))) = (e, t')" by simp
  from send_err [OF h e] obtain j where
    j: "j \<le> length (k # be32 (span_len p))" "sent t' = sent t @ take j (k # be32 (span_len p))"
    and e: "e \<in> {SD_ERR_INVALID, SD_ERR_IO, SD_ERR_TIMEOUT}" by auto
  have "take j (k # be32 (span_len p)) = take j ((k # be32 (span_len p)) @ span_bytes p)"
    using j(1) by (simp only: take_append) simp
  with j(2) e show ?thesis by (metis append_Cons)
next
  case (payload t1)
  with err have h: "t_send io t1 p = (e, t')" by simp
  from send_err [OF h e] obtain j where "sent t' = sent t1 @ take j (span_bytes p)"
    and "e \<in> {SD_ERR_INVALID, SD_ERR_IO, SD_ERR_TIMEOUT}" by auto
  moreover have "sent t1 = sent t @ k # be32 (span_len p)"
    using send_ok [OF payload(5)] by simp
  moreover have "take (5 + j) (k # be32 (span_len p) @ span_bytes p) =
      k # be32 (span_len p) @ take j (span_bytes p)"
    by (simp add: be32_def numeral_eq_Suc)
  ultimately show ?thesis by (metis append.assoc append_Cons)
qed (use err e in auto)

text \<open>
  The receive operation refines the abstract reader: on every stream it returns the reader's
  frame, or the error code of the reader's verdict.
\<close>

lemma frame_recv_refines:
  assumes t: "\<not> t_null io t"
  shows "case parse_frame cap (incoming t) of
      Frame k p rest \<Rightarrow> (\<exists>t'. sd_frame_recv io t cap = (SD_OK, k, p, t') \<and> \<not> t_null io t' \<and>
        incoming t' = rest \<and> sent t' = sent t)
    | Malformed \<Rightarrow> (\<exists>t'. sd_frame_recv io t cap = (SD_ERR_IO, 0, [], t') \<and> sent t' = sent t)
    | Oversized rest \<Rightarrow> (\<exists>t'. sd_frame_recv io t cap = (SD_ERR_NO_MEM, 0, [], t') \<and>
        \<not> t_null io t' \<and> incoming t' = rest \<and> sent t' = sent t)
    | Truncated \<Rightarrow> (\<exists>e t'. sd_frame_recv io t cap = (e, 0, [], t') \<and>
        e \<in> {SD_ERR_IO, SD_ERR_TIMEOUT} \<and> sent t' = sent t)"
proof (cases rule: recv_cases [OF t, of 5, case_names ok short])
  case (short e bs t')
  then have "parse_frame cap (incoming t) = Truncated"
    by (cases "(cap, incoming t)" rule: parse_frame.cases) auto
  with short show ?thesis by (auto simp: sd_frame_recv_def)
next
  case (ok t1)
  obtain k b0 b1 b2 b3 rest where s: "incoming t = k # b0 # b1 # b2 # b3 # rest"
    using ok(1) by (auto simp: numeral_eq_Suc Suc_le_length_iff)
  let ?n = "read_be32 b0 b1 b2 b3"
  have rest: "incoming t1 = rest" and hdr: "t_recv io t 5 = (SD_OK, [k, b0, b1, b2, b3], t1)"
    using ok s by simp_all
  consider "\<not> kind_ok k \<or> ?n > SD_MAX_FRAME_BYTES" | "kind_ok k" "?n \<le> SD_MAX_FRAME_BYTES" "?n > cap"
    | "kind_ok k" "?n \<le> SD_MAX_FRAME_BYTES" "?n \<le> cap" "?n = 0"
    | "kind_ok k" "?n \<le> SD_MAX_FRAME_BYTES" "?n \<le> cap" "?n > 0"
    by linarith
  then show ?thesis
  proof cases
    case 4
    then have recv: "sd_frame_recv io t cap = (case t_recv io t1 ?n of (err, buf, t2) \<Rightarrow>
        if err \<noteq> SD_OK then (err, 0, [], t2) else (SD_OK, k, buf, t2))"
      by (auto simp: sd_frame_recv_def hdr kind_ok_def Let_def split: prod.split)
    show ?thesis
      by (cases rule: recv_cases [OF ok(3), of ?n])
        (use 4 s rest ok(5) recv in \<open>auto simp: Let_def\<close>)
  qed (use s rest ok(3,5) in \<open>auto simp: sd_frame_recv_def hdr kind_ok_def Let_def\<close>)
qed

lemma frame_recv_null: "t_null io t \<Longrightarrow> sd_frame_recv io t cap = (SD_ERR_INVALID, 0, [], t)"
  by (simp add: sd_frame_recv_def recv_null)

text \<open>The two consequences the message layer uses.\<close>

lemma frame_recv_ok:
  assumes "sd_frame_recv io t cap = (SD_OK, k, p, t')"
  shows "incoming t = encode_frame k p @ incoming t' \<and> kind_ok k \<and> length p \<le> cap \<and>
    \<not> t_null io t \<and> \<not> t_null io t' \<and> sent t' = sent t"
proof -
  have t: "\<not> t_null io t"
    using assms frame_recv_null [of t cap] by auto
  from frame_recv_refines [OF t, of cap] assms
  have "parse_frame cap (incoming t) = Frame k p (incoming t')" "\<not> t_null io t'" "sent t' = sent t"
    by (auto split: frame_result.splits)
  with parse_frame_sound [OF this(1)] t show ?thesis by simp
qed

lemma frame_recv_encoded:
  assumes "\<not> t_null io t" and "incoming t = encode_frame k p @ rest" and "kind_ok k"
    and "length p \<le> SD_MAX_FRAME_BYTES" and "length p \<le> cap"
  shows "\<exists>t'. sd_frame_recv io t cap = (SD_OK, k, p, t') \<and> \<not> t_null io t' \<and>
    incoming t' = rest \<and> sent t' = sent t"
  using frame_recv_refines [OF assms(1), of cap] assms by (simp add: parse_encode_frame)

lemma frame_recv_errors:
  assumes "sd_frame_recv io t cap = (e, k, p, t')"
  shows "e \<in> {SD_OK, SD_ERR_INVALID, SD_ERR_IO, SD_ERR_NO_MEM, SD_ERR_TIMEOUT} \<and> sent t' = sent t"
  using assms frame_recv_null [of t cap] frame_recv_refines [of t cap]
  by (cases "t_null io t") (auto split: frame_result.splits)

end

section \<open>Properties of the framing over TCP\<close>

lemma tcp_state: "\<not> t_null tcp t \<longleftrightarrow> (\<exists>s. t = Some s)"
  by auto

text \<open>
  C9: for every state of the connection, \<open>sd_frame_recv\<close> returns exactly what the frame format
  says of the bytes still to come: the frame (leaving the rest of the stream), \<open>SD_ERR_IO\<close> for an
  unknown kind or a length over 8 MiB, \<open>SD_ERR_NO_MEM\<close> for a frame larger than the buffer, and an
  I/O or timeout error, never a hang, for a stream that ends inside the frame.
\<close>

theorem sd_frame_recv_refines:
  "case parse_frame cap (stream (rx s)) of
      Frame k p rest \<Rightarrow> (\<exists>s'. sd_frame_recv tcp (Some s) cap = (SD_OK, k, p, Some s') \<and>
        stream (rx s') = rest \<and> wire s' = wire s)
    | Malformed \<Rightarrow> fst (sd_frame_recv tcp (Some s) cap) = SD_ERR_IO
    | Oversized rest \<Rightarrow> (\<exists>s'. sd_frame_recv tcp (Some s) cap = (SD_ERR_NO_MEM, 0, [], Some s') \<and>
        stream (rx s') = rest)
    | Truncated \<Rightarrow> fst (sd_frame_recv tcp (Some s) cap) \<in> {SD_ERR_IO, SD_ERR_TIMEOUT}"
  using tcp.frame_recv_refines [of "Some s" cap]
  by (auto simp: tcp_state split: frame_result.splits)

text \<open>
  C10: \<open>sd_frame_send\<close> writes the whole encoded frame when it returns \<open>SD_OK\<close>; a kind other than
  J or B or a payload over 8 MiB is refused before any byte is written; every other failure
  leaves a prefix of the frame on the wire.
\<close>

theorem sd_frame_send_writes:
  "\<exists>e s'. sd_frame_send tcp (Some s) k (Mem p) = (e, Some s') \<and>
     (if e = SD_OK then kind_ok k \<and> length p \<le> SD_MAX_FRAME_BYTES \<and>
        wire s' = wire s @ encode_frame k p \<and> rx s' = rx s
      else if kind_ok k \<and> length p \<le> SD_MAX_FRAME_BYTES then
        e \<in> {SD_ERR_IO, SD_ERR_TIMEOUT} \<and> (\<exists>j. wire s' = wire s @ take j (encode_frame k p))
      else e = SD_ERR_INVALID \<and> s' = s)"
proof -
  obtain e t' where r: "sd_frame_send tcp (Some s) k (Mem p) = (e, t')"
    by (cases "sd_frame_send tcp (Some s) k (Mem p)")
  show ?thesis
  proof (cases "kind_ok k \<and> length p \<le> SD_MAX_FRAME_BYTES")
    case False
    then have "sd_frame_send tcp (Some s) k (Mem p) = (SD_ERR_INVALID, Some s)"
      by (auto simp: sd_frame_send_def kind_ok_def)
    with False show ?thesis by auto
  next
    case True
    have "(\<exists>s'. t' = Some s' \<and> rx s' = rx s) \<and> e \<in> {SD_OK, SD_ERR_IO, SD_ERR_TIMEOUT}"
      by (cases rule: tcp.frame_send_unfold [of "Some s" k "Mem p"])
        (use r True in \<open>auto dest!: tcp_send_mem tcp_send_mem [OF sym]\<close>)
    then obtain s' where s': "t' = Some s'" "rx s' = rx s" and e': "e \<in> {SD_OK, SD_ERR_IO, SD_ERR_TIMEOUT}"
      by blast
    show ?thesis
      using r s' e' True tcp.frame_send_ok [of "Some s" k "Mem p" t']
        tcp.frame_send_err [OF r] by (auto simp: encode_frame_def)
  qed
qed

text \<open>
  C11: a frame sent successfully is received as the same kind and payload by a peer whose stream
  begins with the bytes that were written, however the kernel split the writes and the reads,
  and the peer's stream continues right behind the frame.
\<close>

theorem frame_roundtrip:
  assumes "sd_frame_send tcp (Some a) k (Mem p) = (SD_OK, Some a')"
    and "wire a' = wire a @ w"
    and "stream (rx b) = w @ rest"
    and "length p \<le> cap"
  shows "\<exists>b'. sd_frame_recv tcp (Some b) cap = (SD_OK, k, p, Some b') \<and> stream (rx b') = rest"
  using tcp.frame_send_ok [OF assms(1)] assms(2-4)
    tcp.frame_recv_encoded [of "Some b" k p rest cap] by (auto simp: tcp_state)

theorem frame_roundtrip_witness:
  "\<exists>b'. sd_frame_recv tcp
      (Some \<lparr>rx = [Rx_data [0x4A, 0, 0], Rx_data [0, 2, 0x68], Rx_data [0x69, 0x42]], tx = [], wire = []\<rparr>)
      16 = (SD_OK, SD_KIND_JSON, [0x68, 0x69], Some b') \<and> stream (rx b') = [0x42]"
proof -
  let ?a = "\<lparr>rx = [], tx = [Tx_accept 3, Tx_accept 9, Tx_accept 1], wire = []\<rparr>"
  let ?a' = "\<lparr>rx = [], tx = [], wire = [0x4A, 0, 0, 0, 2, 0x68, 0x69]\<rparr>"
  let ?b = "\<lparr>rx = [Rx_data [0x4A, 0, 0], Rx_data [0, 2, 0x68], Rx_data [0x69, 0x42]], tx = [], wire = []\<rparr>"
  have "sd_frame_send tcp (Some ?a) SD_KIND_JSON (Mem [0x68, 0x69]) = (SD_OK, Some ?a')"
    by (simp add: sd_frame_send_def SD_KIND_JSON_def SD_MAX_FRAME_BYTES_def sd_transport_send_def
        send_loop.simps be32_def flip: numeral_2_eq_2)
  from frame_roundtrip [OF this, of "[0x4A, 0, 0, 0, 2, 0x68, 0x69]" ?b "[0x42]" 16]
  show ?thesis by simp
qed

end
