(* ===== verification/Json.thy ===== *)
theory Json
  imports Core "HOL-Library.Sublist"
begin

text \<open>
  The reader of flat control messages (\<open>components/protocol/src/json.c\<close>): locate \<open>"key"\<close> and the
  colon, then unescape a string into a fixed buffer or read an unsigned number. A C string is
  the list of its characters; \<open>deref\<close> reads the terminator at its end, so a read past it cannot
  be expressed. The output buffer is the list of its \<open>cap\<close> bytes, initial contents included.
\<close>



abbreviation QUOTE :: char where "QUOTE \<equiv> CHR 0x22"
abbreviation BACKSLASH :: char where "BACKSLASH \<equiv> CHR 0x5C"
abbreviation TAB :: char where "TAB \<equiv> CHR 0x09"

section \<open>Unescaping\<close>

text \<open>\<open>(char)x\<close> keeps the low eight bits.\<close>

definition to_char :: "u32 \<Rightarrow> char" where
  "to_char x = char_of (unat x)"

text \<open>\<open>append_utf8\<close>: the capacity is the length of the buffer; \<open>pos\<close> is \<open>*pos\<close>.\<close>

definition append_utf8 :: "char list \<Rightarrow> nat \<Rightarrow> u32 \<Rightarrow> char list \<times> nat" where
  "append_utf8 out pos cp =
     (if cp < 0x80 then
        (if pos + 1 < length out then (out[pos := to_char cp], pos + 1) else (out, pos))
      else if cp < 0x800 then
        (if pos + 2 < length out then
           (out[pos := to_char (0xC0 OR drop_bit 6 cp), pos + 1 := to_char (0x80 OR (cp AND 0x3F))],
            pos + 2)
         else (out, pos))
      else if cp < 0x10000 then
        (if pos + 3 < length out then
           (out[pos := to_char (0xE0 OR drop_bit 12 cp),
                pos + 1 := to_char (0x80 OR (drop_bit 6 cp AND 0x3F)),
                pos + 2 := to_char (0x80 OR (cp AND 0x3F))], pos + 3)
         else (out, pos))
      else
        (if pos + 4 < length out then
           (out[pos := to_char (0xF0 OR drop_bit 18 cp),
                pos + 1 := to_char (0x80 OR (drop_bit 12 cp AND 0x3F)),
                pos + 2 := to_char (0x80 OR (drop_bit 6 cp AND 0x3F)),
                pos + 3 := to_char (0x80 OR (cp AND 0x3F))], pos + 4)
         else (out, pos)))"

definition hex_digit :: "char \<Rightarrow> u32 option" where
  "hex_digit c =
     (if 0x30 \<le> code c \<and> code c \<le> 0x39 then Some (word_of_nat (code c - 0x30))
      else if 0x61 \<le> code c \<and> code c \<le> 0x66 then Some (word_of_nat (code c - 0x61 + 10))
      else if 0x41 \<le> code c \<and> code c \<le> 0x46 then Some (word_of_nat (code c - 0x41 + 10))
      else None)"

text \<open>The loop of \<open>hex4\<close>; it stops at the first character that is no digit, so at the terminator.\<close>

fun hex_loop :: "nat \<Rightarrow> string \<Rightarrow> u32 \<Rightarrow> u32 option" where
  "hex_loop 0 p v = Some v"
| "hex_loop (Suc i) p v =
     (case hex_digit (deref p) of None \<Rightarrow> None
      | Some d \<Rightarrow> hex_loop i (tl p) (push_bit 4 v OR d))"

definition hex4 :: "string \<Rightarrow> u32 option" where
  "hex4 p = hex_loop 4 p 0"

definition simple_escape :: "char \<Rightarrow> u32 option" where
  "simple_escape c =
     (if c = QUOTE then Some 0x22 else if c = BACKSLASH then Some 0x5C
      else if c = CHR ''/'' then Some 0x2F else if c = CHR ''b'' then Some 0x08
      else if c = CHR ''f'' then Some 0x0C else if c = CHR ''n'' then Some 0x0A
      else if c = CHR ''r'' then Some 0x0D else if c = CHR ''t'' then Some 0x09 else None)"

text \<open>
  A high surrogate followed by an escaped low surrogate is one code point; \<open>p\<close> points at the
  last hex digit of the first escape, the result at the last digit that was consumed.
\<close>

definition surrogate_pair :: "u32 \<Rightarrow> string \<Rightarrow> u32 \<times> string" where
  "surrogate_pair cp p =
     (if 0xD800 \<le> cp \<and> cp \<le> 0xDBFF \<and> deref (drop 1 p) = BACKSLASH \<and> deref (drop 2 p) = CHR ''u'' then
        (case hex4 (drop 3 p) of
           Some lo \<Rightarrow>
             if 0xDC00 \<le> lo \<and> lo \<le> 0xDFFF
             then (0x10000 + push_bit 10 (cp - 0xD800) + (lo - 0xDC00), drop 6 p)
             else (cp, p)
         | None \<Rightarrow> (cp, p))
      else (cp, p))"

definition advance :: "string \<Rightarrow> string" where
  "advance p = (if deref p = NUL then p else tl p)"

lemma length_advance: "length (advance p) \<le> length p"
  by (simp add: advance_def)

lemma length_surrogate_pair: "surrogate_pair u p = (cp, q) \<Longrightarrow> length q \<le> length p"
  by (auto simp: surrogate_pair_def split: if_splits option.splits)

lemma deref_not_NUL: "deref p \<noteq> NUL \<Longrightarrow> p \<noteq> []"
  by auto

lemma advance_less: "deref p = c \<Longrightarrow> c \<noteq> NUL \<Longrightarrow> length (advance (tl p)) < length p"
  using length_advance [of "tl p"] by (cases p) auto

lemma surrogate_advance_less:
  "(cp, q) = surrogate_pair u (drop 5 p) \<Longrightarrow> deref p = c \<Longrightarrow> c \<noteq> NUL \<Longrightarrow>
     length (advance q) < length p"
  using length_surrogate_pair [of u "drop 5 p" cp q] length_advance [of q] by (cases p) auto

text \<open>The main loop of \<open>sd_json_get_string\<close>, from the character behind the opening quote.\<close>

function unescape :: "string \<Rightarrow> char list \<Rightarrow> nat \<Rightarrow> sd_err \<times> char list \<times> nat" where
  "unescape p out pos =
     (if deref p = NUL \<or> deref p = QUOTE then (SD_OK, out, pos)
      else if deref p = BACKSLASH then
        (case simple_escape (deref (tl p)) of
           Some cp \<Rightarrow>
             (case append_utf8 out pos cp of (out', pos') \<Rightarrow> unescape (advance (tl p)) out' pos')
         | None \<Rightarrow>
             if deref (tl p) = CHR ''u'' then
               (case hex4 (drop 2 p) of
                  None \<Rightarrow> (SD_ERR_INVALID, out, pos)
                | Some u \<Rightarrow>
                    (case surrogate_pair u (drop 5 p) of (cp, q) \<Rightarrow>
                       (case append_utf8 out pos cp of (out', pos') \<Rightarrow>
                          unescape (advance q) out' pos')))
             else (SD_ERR_INVALID, out, pos))
      else if pos + 1 < length out then unescape (tl p) (out[pos := deref p]) (pos + 1)
      else unescape (tl p) out pos)"
  by pat_completeness auto
termination
  by (relation "measure (\<lambda>(p, out, pos). length p)")
    (auto simp: advance_less surrogate_advance_less dest: deref_not_NUL)

declare unescape.simps [simp del]

section \<open>The two readers\<close>

fun skip_ws :: "string \<Rightarrow> string" where
  "skip_ws [] = []"
| "skip_ws (c # p) = (if c = CHR '' '' \<or> c = TAB then skip_ws p else c # p)"

definition key_token :: "string \<Rightarrow> string" where
  "key_token key = QUOTE # key @ [QUOTE]"

text \<open>
  What both readers do first: print the token into \<open>needle[64]\<close>, find it, and step over the
  colon and the blanks around it. \<open>None\<close> is \<open>SD_ERR_INVALID\<close>.
\<close>

definition find_value :: "string \<Rightarrow> string \<Rightarrow> string option" where
  "find_value json key =
     (let n = length (key_token key)
      in if n \<ge> 64 then None
         else case strstr json (key_token key) of
           None \<Rightarrow> None
         | Some p \<Rightarrow>
             (let p = skip_ws (drop n p)
              in if deref p \<noteq> CHR '':'' then None else Some (skip_ws (tl p))))"

definition sd_json_get_string ::
    "string option \<Rightarrow> string option \<Rightarrow> char list option \<Rightarrow> sd_err \<times> char list option" where
  "sd_json_get_string json key out =
     (case (json, key, out) of
        (Some j, Some k, Some buf) \<Rightarrow>
          if length buf = 0 then (SD_ERR_INVALID, out)
          else (case find_value j k of
             None \<Rightarrow> (SD_ERR_INVALID, out)
           | Some p \<Rightarrow>
               if deref p \<noteq> QUOTE then (SD_ERR_INVALID, out)
               else (case unescape (tl p) buf 0 of (err, buf', pos) \<Rightarrow>
                       if err \<noteq> SD_OK then (err, Some buf')
                       else (SD_OK, Some (buf'[(if pos < length buf' then pos
                                                 else length buf' - 1) := NUL]))))
      | _ \<Rightarrow> (SD_ERR_INVALID, out))"

fun uint_loop :: "string \<Rightarrow> u32 \<Rightarrow> u32" where
  "uint_loop [] value = value"
| "uint_loop (c # p) value =
     (if is_digit c then uint_loop p (value * 10 + word_of_nat (code c - 0x30)) else value)"

text \<open>\<open>out\<close> is \<open>*out\<close> (\<open>None\<close> for a NULL pointer); it keeps its value on an error.\<close>

definition sd_json_get_uint ::
    "string option \<Rightarrow> string option \<Rightarrow> u32 option \<Rightarrow> sd_err \<times> u32 option" where
  "sd_json_get_uint json key out =
     (case (json, key, out) of
        (Some j, Some k, Some _) \<Rightarrow>
          (case find_value j k of
             None \<Rightarrow> (SD_ERR_INVALID, out)
           | Some p \<Rightarrow>
               if \<not> is_digit (deref p) then (SD_ERR_INVALID, out)
               else (SD_OK, Some (uint_loop p 0)))
      | _ \<Rightarrow> (SD_ERR_INVALID, out))"

section \<open>Code points, UTF-8 and JSON escapes, abstractly\<close>

text \<open>
  The reference side: UTF-8 by arithmetic on code points, and the escaping of Python's
  \<open>json.dumps\<close> (\<open>ensure_ascii\<close>), with which the phone (\<open>protocol/messages.py\<close>) writes every
  string it sends. A code point is a Unicode scalar value other than 0.
\<close>

definition utf8 :: "nat \<Rightarrow> string" where
  "utf8 n =
     (if n < 0x80 then [char_of n]
      else if n < 0x800 then [char_of (0xC0 + n div 64), char_of (0x80 + n mod 64)]
      else if n < 0x10000 then
        [char_of (0xE0 + n div 4096), char_of (0x80 + n div 64 mod 64), char_of (0x80 + n mod 64)]
      else [char_of (0xF0 + n div 262144), char_of (0x80 + n div 4096 mod 64),
            char_of (0x80 + n div 64 mod 64), char_of (0x80 + n mod 64)])"

definition scalar :: "nat \<Rightarrow> bool" where
  "scalar n \<longleftrightarrow> 0 < n \<and> n < 0x110000 \<and> \<not> (0xD800 \<le> n \<and> n \<le> 0xDFFF)"

definition hex_char :: "nat \<Rightarrow> char" where
  "hex_char d = (if d < 10 then char_of (0x30 + d) else char_of (0x57 + d))"

definition u_escape :: "nat \<Rightarrow> string" where
  "u_escape n = [BACKSLASH, CHR ''u'', hex_char (n div 4096 mod 16), hex_char (n div 256 mod 16),
     hex_char (n div 16 mod 16), hex_char (n mod 16)]"

definition json_escape :: "nat \<Rightarrow> string" where
  "json_escape n =
     (if n = 0x22 then [BACKSLASH, QUOTE] else if n = 0x5C then [BACKSLASH, BACKSLASH]
      else if n = 0x0A then [BACKSLASH, CHR ''n''] else if n = 0x0D then [BACKSLASH, CHR ''r'']
      else if n = 0x09 then [BACKSLASH, CHR ''t''] else if n = 0x0C then [BACKSLASH, CHR ''f'']
      else if n = 0x08 then [BACKSLASH, CHR ''b'']
      else if 0x20 \<le> n \<and> n \<le> 0x7E then [char_of n]
      else if n < 0x10000 then u_escape n
      else u_escape (0xD800 + (n - 0x10000) div 1024) @ u_escape (0xDC00 + (n - 0x10000) mod 1024))"

lemma or_push_bit_add: "m < 2 ^ k \<Longrightarrow> push_bit k c OR m = push_bit k c + (m::nat)"
  by (rule disjunctive_add [symmetric])
    (metis bit_push_bit_iff bit_take_bit_iff not_less take_bit_nat_eq_self)

lemma or_lead_bytes:
  "m < 32 \<Longrightarrow> 0xC0 OR m = 0xC0 + (m::nat)" "m < 16 \<Longrightarrow> 0xE0 OR m = 0xE0 + (m::nat)"
  "m < 8 \<Longrightarrow> 0xF0 OR m = 0xF0 + (m::nat)" "m < 64 \<Longrightarrow> 0x80 OR m = 0x80 + (m::nat)"
  using or_push_bit_add [of m 5 6] or_push_bit_add [of m 4 14]
    or_push_bit_add [of m 3 30] or_push_bit_add [of m 6 2]
  by (simp_all add: push_bit_eq_mult)

lemma and_3F: "m AND 0x3F = m mod (64::nat)"
  using take_bit_eq_mask [where n = 6 and a = m] by (simp add: take_bit_nat_def mask_eq_exp_minus_1)

lemma unat_code_point: "n < 0x110000 \<Longrightarrow> unat (word_of_nat n :: u32) = n"
  by (simp add: unsigned_of_nat take_bit_nat_eq_self)

lemma take_bit_code_point: "n < 0x110000 \<Longrightarrow> take_bit 32 n = (n::nat)"
  by (simp add: take_bit_nat_eq_self)

lemmas cp_bytes = take_bit_code_point to_char_def unsigned_or_eq unsigned_and_eq unsigned_drop_bit_eq drop_bit_nat_def
  and_3F or_lead_bytes unat_code_point

lemma less_code_point:
  "n < 0x110000 \<Longrightarrow> k < 0x110000 \<Longrightarrow> (word_of_nat n :: u32) < word_of_nat k \<longleftrightarrow> n < k"
  by (simp add: word_less_nat_alt unat_code_point)

lemma utf8_length: "length (utf8 n) \<in> {1, 2, 3, 4}"
  by (simp add: utf8_def)

lemma append_utf8_room:
  assumes n: "n < 0x110000" and room: "length (utf8 n) < length ys"
  shows "append_utf8 (xs @ ys) (length xs) (word_of_nat n) =
    (xs @ utf8 n @ drop (length (utf8 n)) ys, length xs + length (utf8 n))"
proof -
  have lt: "(word_of_nat n :: u32) < 0x80 \<longleftrightarrow> n < 0x80" "(word_of_nat n :: u32) < 0x800 \<longleftrightarrow> n < 0x800"
    "(word_of_nat n :: u32) < 0x10000 \<longleftrightarrow> n < 0x10000"
    using n less_code_point [of n 128] less_code_point [of n 2048]
      less_code_point [of n 65536] by simp_all
  obtain y1 zs where y1: "ys = y1 # zs" using room by (cases ys) auto
  consider "n < 0x80" | "\<not> n < 0x80" "n < 0x800" | "\<not> n < 0x800" "n < 0x10000" | "\<not> n < 0x10000"
    by linarith
  then show ?thesis
  proof cases
    case 1
    then show ?thesis using n room y1 
      by (simp add: append_utf8_def lt utf8_def cp_bytes)
  next
    case 2
    then obtain y2 zs' where "zs = y2 # zs'" using room y1 by (cases zs) (auto simp: utf8_def)
    with 2 show ?thesis using n room y1
      by (simp add: append_utf8_def lt utf8_def cp_bytes list_update_append)
  next
    case 3
    then obtain y2 y3 zs' where "zs = y2 # y3 # zs'"
      using room y1 by (cases zs; cases "tl zs") (auto simp: utf8_def)
    with 3 show ?thesis using n room y1
      by (simp add: append_utf8_def lt utf8_def cp_bytes list_update_append)
  next
    case 4
    then obtain y2 y3 y4 zs' where "zs = y2 # y3 # y4 # zs'"
      using room y1 by (cases zs; cases "tl zs"; cases "tl (tl zs)") (auto simp: utf8_def)
    with 4 show ?thesis using n room y1
      by (simp add: append_utf8_def lt utf8_def cp_bytes list_update_append)
  qed
qed

lemma append_utf8_full:
  assumes n: "n < 0x110000" and full: "length out \<le> pos + length (utf8 n)"
  shows "append_utf8 out pos (word_of_nat n) = (out, pos)"
proof -
  have lt: "(word_of_nat n :: u32) < 0x80 \<longleftrightarrow> n < 0x80" "(word_of_nat n :: u32) < 0x800 \<longleftrightarrow> n < 0x800"
    "(word_of_nat n :: u32) < 0x10000 \<longleftrightarrow> n < 0x10000"
    using n less_code_point [of n 128] less_code_point [of n 2048]
      less_code_point [of n 65536] by simp_all
  show ?thesis
    using full by (auto simp: append_utf8_def lt utf8_def split: if_splits)
qed

lemma code_char_of: "n < 256 \<Longrightarrow> code (char_of n) = n"
  by (simp add: code_def)

lemma char_of_eq: "n < 256 \<Longrightarrow> char_of n = c \<longleftrightarrow> n = (of_char c :: nat)"
  by (simp add: char_of_eq_iff take_bit_nat_eq_self)

lemma hex_digit_hex_char: "d < 16 \<Longrightarrow> hex_digit (hex_char d) = Some (word_of_nat d)"
  by (auto simp: hex_digit_def hex_char_def code_char_of)

lemma shift_in_digit:
  assumes "d < 16"
  shows "push_bit 4 (word_of_nat v :: u32) OR word_of_nat d = word_of_nat (v * 16 + d)"
proof -
  have "push_bit 4 (word_of_nat v :: u32) OR word_of_nat d = word_of_nat (push_bit 4 v OR d)"
    by (simp only: push_bit_of_nat of_nat_or_eq)
  also have "push_bit 4 v OR d = v * 16 + d"
    using assms or_push_bit_add [of d 4 v] by (simp add: push_bit_eq_mult)
  finally show ?thesis .
qed

lemma hex_loop_step:
  "d < 16 \<Longrightarrow> hex_loop (Suc i) (hex_char d # p) (word_of_nat v) = hex_loop i p (word_of_nat (v * 16 + d))"
  by (simp only: hex_loop.simps deref_simps hex_digit_hex_char option.case shift_in_digit list.sel)

lemma hex4_digits:
  assumes "a < 16" "b < 16" "c < 16" "d < 16"
  shows "hex4 (hex_char a # hex_char b # hex_char c # hex_char d # rest) =
    Some (word_of_nat (((a * 16 + b) * 16 + c) * 16 + d))"
proof -
  have "hex4 (hex_char a # hex_char b # hex_char c # hex_char d # rest) =
      hex_loop (Suc (Suc (Suc (Suc 0)))) (hex_char a # hex_char b # hex_char c # hex_char d # rest)
        (word_of_nat 0)"
    by (simp add: hex4_def numeral_eq_Suc)
  then show ?thesis
    by (simp only: hex_loop_step assms hex_loop.simps(1) mult_zero_left add_0)
qed

lemma u_escape_value:
  "n < 0x10000 \<Longrightarrow>
     ((n div 4096 mod 16 * 16 + n div 256 mod 16) * 16 + n div 16 mod 16) * 16 + n mod 16 = (n::nat)"
proof -
  assume "n < 0x10000"
  then have "n div 4096 mod 16 = n div 16 div 16 div 16"
    by (simp add: div_mult2_eq [symmetric])
  moreover have "n div 256 = n div 16 div 16"
    by (simp add: div_mult2_eq [symmetric])
  ultimately show ?thesis
    by (simp only: div_mult_mod_eq)
qed

lemma hex4_u_escape:
  "n < 0x10000 \<Longrightarrow> hex4 (drop 2 (u_escape n @ rest)) = Some (word_of_nat n)"
  using u_escape_value [of n] hex4_digits [of "n div 4096 mod 16" "n div 256 mod 16" "n div 16 mod 16" "n mod 16" rest]
  by (simp add: u_escape_def)

lemma drop_u_escape: "drop 5 (u_escape n @ rest) = hex_char (n mod 16) # rest"
  by (simp add: u_escape_def)

lemma hex_char_not_NUL: "d < 16 \<Longrightarrow> hex_char d \<noteq> NUL"
  by (auto simp: hex_char_def char_of_eq)

section \<open>The reader inverts the escaping\<close>

definition escape_all :: "nat list \<Rightarrow> string" where
  "escape_all v = concat (map json_escape v)"

definition utf8_all :: "nat list \<Rightarrow> string" where
  "utf8_all v = concat (map utf8 v)"

lemma scalar_less: "scalar n \<Longrightarrow> n < 0x110000"
  by (simp add: scalar_def)

abbreviation emit :: "char list \<Rightarrow> nat \<Rightarrow> nat \<Rightarrow> (char list \<Rightarrow> nat \<Rightarrow> 'r) \<Rightarrow> 'r" where
  "emit out pos n k \<equiv> k (fst (append_utf8 out pos (word_of_nat n))) (snd (append_utf8 out pos (word_of_nat n)))"

lemma unescape_simple:
  "simple_escape c = Some (word_of_nat n) \<Longrightarrow> c \<noteq> NUL \<Longrightarrow>
     unescape (BACKSLASH # c # tail) out pos = emit out pos n (unescape tail)"
  by (subst unescape.simps) (simp add: advance_def split: prod.split)

lemma unescape_u:
  assumes "n < 0x10000" and "surrogate_pair (word_of_nat n) (hex_char (n mod 16) # q) = (word_of_nat m, r)"
  shows "unescape (u_escape n @ q) out pos = emit out pos m (unescape (advance r))"
proof -
  have "deref (u_escape n @ q) = BACKSLASH" "deref (tl (u_escape n @ q)) = CHR ''u''"
    by (simp_all add: u_escape_def)
  then show ?thesis
    using assms hex4_u_escape [OF assms(1), of q]
    by (subst unescape.simps)
      (simp add: drop_u_escape simple_escape_def del: drop_append split: prod.split)
qed

lemma json_escape_short:
  assumes "n \<in> {0x22, 0x5C, 0x0A, 0x0D, 0x09, 0x0C, 0x08}"
  obtains c where "json_escape n = [BACKSLASH, c]" "simple_escape c = Some (word_of_nat n)" "c \<noteq> NUL"
proof -
  let ?c = "if n = 0x22 then QUOTE else if n = 0x5C then BACKSLASH else if n = 0x0A then CHR ''n''
    else if n = 0x0D then CHR ''r'' else if n = 0x09 then CHR ''t'' else if n = 0x0C then CHR ''f''
    else CHR ''b''"
  from assms consider "n = 0x22" | "n = 0x5C" | "n = 0x0A" | "n = 0x0D" | "n = 0x09" | "n = 0x0C" | "n = 0x08"
    by blast
  then have "json_escape n = [BACKSLASH, ?c] \<and> simple_escape ?c = Some (word_of_nat n) \<and> ?c \<noteq> NUL"
    by cases (simp_all add: json_escape_def simple_escape_def)
  then show thesis using that by blast
qed

lemma json_escape_plain:
  "n \<notin> {0x22, 0x5C, 0x0A, 0x0D, 0x09, 0x0C, 0x08} \<Longrightarrow> 0x20 \<le> n \<Longrightarrow> n \<le> 0x7E \<Longrightarrow> json_escape n = [char_of n]"
  by (simp add: json_escape_def)

lemma json_escape_u:
  "n \<notin> {0x22, 0x5C, 0x0A, 0x0D, 0x09, 0x0C, 0x08} \<Longrightarrow> \<not> (0x20 \<le> n \<and> n \<le> 0x7E) \<Longrightarrow> n < 0x10000 \<Longrightarrow>
     json_escape n = u_escape n"
  unfolding json_escape_def by auto

lemma json_escape_pair:
  "0x10000 \<le> n \<Longrightarrow> json_escape n =
     u_escape (0xD800 + (n - 0x10000) div 1024) @ u_escape (0xDC00 + (n - 0x10000) mod 1024)"
  by (simp add: json_escape_def)

lemma surrogate_pair_join:
  assumes "0xD800 \<le> hi" "hi \<le> 0xDBFF" "0xDC00 \<le> lo" "lo \<le> 0xDFFF"
  shows "surrogate_pair (word_of_nat hi) (d # u_escape lo @ tail) =
    (word_of_nat (0x10000 + (hi - 0xD800) * 1024 + (lo - 0xDC00)), hex_char (lo mod 16) # tail)"
proof -
  have h: "hex4 (drop 3 (d # u_escape lo @ tail)) = Some (word_of_nat lo)"
    using hex4_u_escape [of lo tail] assms by (simp add: numeral_3_eq_3 numeral_2_eq_2)
  have hi: "(0xD800 :: u32) \<le> word_of_nat hi" "(word_of_nat hi :: u32) \<le> 0xDBFF"
    and lo: "(0xDC00 :: u32) \<le> word_of_nat lo" "(word_of_nat lo :: u32) \<le> 0xDFFF"
    using assms by (simp_all add: word_le_nat_alt unat_code_point)
  have "(word_of_nat hi - 0xD800 :: u32) = word_of_nat (hi - 0xD800)"
    "(word_of_nat lo - 0xDC00 :: u32) = word_of_nat (lo - 0xDC00)"
    using assms by (simp_all add: of_nat_diff)
  then have "(0x10000 + push_bit 10 (word_of_nat hi - 0xD800) + (word_of_nat lo - 0xDC00) :: u32) =
      word_of_nat (0x10000 + (hi - 0xD800) * 1024 + (lo - 0xDC00))"
    by (simp add: push_bit_eq_mult ac_simps)
  moreover have "deref (drop 1 (d # u_escape lo @ tail)) = BACKSLASH"
    "deref (drop 2 (d # u_escape lo @ tail)) = CHR ''u''"
    "drop 6 (d # u_escape lo @ tail) = hex_char (lo mod 16) # tail"
    by (simp_all add: u_escape_def)
  ultimately show ?thesis
    using h hi lo unfolding surrogate_pair_def by simp
qed

lemma surrogate_pair_single:
  "\<not> (0xD800 \<le> n \<and> n \<le> 0xDBFF) \<Longrightarrow> n < 0x110000 \<Longrightarrow> surrogate_pair (word_of_nat n) q = (word_of_nat n, q)"
  by (auto simp: surrogate_pair_def word_le_nat_alt unat_code_point)

lemma unescape_one:
  assumes n: "scalar n"
  shows "unescape (json_escape n @ tail) out pos = emit out pos n (unescape tail)"
proof -
  let ?short = "{0x22, 0x5C, 0x0A, 0x0D, 0x09, 0x0C, 0x08} :: nat set"
  consider (short) "n \<in> ?short"
    | (plain) "n \<notin> ?short" "0x20 \<le> n" "n \<le> 0x7E"
    | (u) "n \<notin> ?short" "\<not> (0x20 \<le> n \<and> n \<le> 0x7E)" "n < 0x10000"
    | (pair) "0x10000 \<le> n"
    by linarith
  then show ?thesis
  proof cases
    case short
    then obtain c where "json_escape n = [BACKSLASH, c]" "simple_escape c = Some (word_of_nat n)" "c \<noteq> NUL"
      by (rule json_escape_short)
    then show ?thesis
      using unescape_simple [of c n tail out pos] by simp
  next
    case plain
    have "append_utf8 out pos (word_of_nat n) = (if pos + 1 < length out then (out[pos := char_of n], pos + 1) else (out, pos))"
      using plain less_code_point [of n 128] by (simp add: append_utf8_def cp_bytes)
    then show ?thesis
      using plain json_escape_plain [OF plain] by (subst unescape.simps) (simp add: char_of_eq)
  next
    case u
    have "surrogate_pair (word_of_nat n) (hex_char (n mod 16) # tail) =
        (word_of_nat n, hex_char (n mod 16) # tail)"
      using n by (intro surrogate_pair_single) (auto simp: scalar_def)
    from unescape_u [OF u(3) this] json_escape_u [OF u]
    show ?thesis by (simp add: advance_def hex_char_not_NUL)
  next
    case pair
    define hi where "hi = 0xD800 + (n - 0x10000) div 1024"
    define lo where "lo = 0xDC00 + (n - 0x10000) mod 1024"
    have b: "hi < 0x10000" "0xD800 \<le> hi" "hi \<le> 0xDBFF" "0xDC00 \<le> lo" "lo \<le> 0xDFFF"
      and val: "0x10000 + (hi - 0xD800) * 1024 + (lo - 0xDC00) = n"
      using n pair unfolding hi_def lo_def scalar_def by auto
    have "surrogate_pair (word_of_nat hi) (hex_char (hi mod 16) # u_escape lo @ tail) =
        (word_of_nat n, hex_char (lo mod 16) # tail)"
      using surrogate_pair_join [OF b(2-5), of _ tail] val by simp
    from unescape_u [OF b(1) this] json_escape_pair [OF pair]
    show ?thesis by (simp add: advance_def hex_char_not_NUL hi_def lo_def)
  qed
qed

text \<open>
  The code points that reach a buffer with \<open>room\<close> free bytes: each one that fits with the
  terminator behind it. One that does not fit is left out and the copy goes on behind it.
\<close>

fun fit :: "nat \<Rightarrow> nat list \<Rightarrow> nat list" where
  "fit room [] = []"
| "fit room (n # v) =
     (if length (utf8 n) < room then n # fit (room - length (utf8 n)) v else fit room v)"

lemma fit_all: "length (utf8_all v) < room \<Longrightarrow> fit room v = v"
  by (induction room v rule: fit.induct) (auto simp: utf8_all_def)

lemma fit_length: "0 < room \<Longrightarrow> length (utf8_all (fit room v)) < room"
proof (induction room v rule: fit.induct)
  case (2 room n v)
  then show ?case
    by (cases "length (utf8 n) < room") (auto simp: utf8_all_def)
qed (simp add: utf8_all_def)

lemma fit_set: "set (fit room v) \<subseteq> set v"
  by (induction room v rule: fit.induct) auto

lemma unescape_escape_all:
  assumes "\<forall>n\<in>set v. scalar n"
  shows "unescape (escape_all v @ QUOTE # rest) (xs @ ys) (length xs) =
    (let w = utf8_all (fit (length ys) v) in (SD_OK, xs @ w @ drop (length w) ys, length xs + length w))"
  using assms
proof (induction v arbitrary: xs ys)
  case Nil
  then show ?case by (subst unescape.simps) (simp add: escape_all_def utf8_all_def)
next
  case (Cons n v)
  let ?ys = "drop (length (utf8 n)) ys"
  have one: "unescape (escape_all (n # v) @ QUOTE # rest) (xs @ ys) (length xs) =
      emit (xs @ ys) (length xs) n (unescape (escape_all v @ QUOTE # rest))"
    using unescape_one [of n "escape_all v @ QUOTE # rest"] Cons.prems by (simp add: escape_all_def)
  have n: "n < 0x110000" using Cons.prems scalar_less by simp
  show ?case
  proof (cases "length (utf8 n) < length ys")
    case True
    have "unescape (escape_all (n # v) @ QUOTE # rest) (xs @ ys) (length xs) =
        unescape (escape_all v @ QUOTE # rest) ((xs @ utf8 n) @ ?ys) (length (xs @ utf8 n))"
      using one append_utf8_room [OF n True] by simp
    also have "\<dots> = (let w = utf8_all (fit (length ?ys) v) in
        (SD_OK, (xs @ utf8 n) @ w @ drop (length w) ?ys, length (xs @ utf8 n) + length w))"
      using Cons.prems by (intro Cons.IH) simp
    finally show ?thesis using True
      by (simp add: utf8_all_def Let_def add.assoc add.commute)
  next
    case False
    then show ?thesis
      using one append_utf8_full [OF n, of "xs @ ys" "length xs"] Cons.IH [of xs ys] Cons.prems by simp
  qed
qed

section \<open>Every call stays inside the buffer and terminates it\<close>

text \<open>One turn of the loop: stop, fail, emit a code point, or copy a byte.\<close>

lemma unescape_turn:
  obtains (stop) "\<And>out pos. unescape p out pos = (SD_OK, out, pos)"
    | (bad) "\<And>out pos. unescape p out pos = (SD_ERR_INVALID, out, pos)"
    | (emit) cp q where "length q < length p"
        "\<And>out pos. unescape p out pos = unescape q (fst (append_utf8 out pos cp)) (snd (append_utf8 out pos cp))"
    | (copy) c q where "p = c # q"
        "\<And>out pos. unescape p out pos =
           (if pos + 1 < length out then unescape q (out[pos := c]) (pos + 1) else unescape q out pos)"
proof (cases "deref p = NUL \<or> deref p = QUOTE")
  case True
  then have "unescape p out pos = (SD_OK, out, pos)" for out pos
    by (subst unescape.simps) simp
  then show thesis by (rule stop)
next
  case go: False
  then have p: "p = deref p # tl p" by (cases p) auto
  show thesis
  proof (cases "deref p = BACKSLASH")
    case False
    then have "unescape p out pos = (if pos + 1 < length out then unescape (tl p) (out[pos := deref p]) (pos + 1)
        else unescape (tl p) out pos)" for out pos
      using go by (subst unescape.simps) simp
    then show thesis using copy p by blast
  next
    case esc: True
    show thesis
    proof (cases "simple_escape (deref (tl p))")
      case (Some cp)
      then have "unescape p out pos = unescape (advance (tl p)) (fst (append_utf8 out pos cp))
          (snd (append_utf8 out pos cp))" for out pos
        using esc by (subst unescape.simps) (simp split: prod.split)
      then show thesis using emit advance_less [OF esc] by simp
    next
      case none: None
      show thesis
      proof (cases "deref (tl p) = CHR ''u'' \<and> hex4 (drop 2 p) \<noteq> None")
        case False
        then have "unescape p out pos = (SD_ERR_INVALID, out, pos)" for out pos
          using esc none by (subst unescape.simps) auto
        then show thesis by (rule bad)
      next
        case True
        then obtain h where h: "hex4 (drop 2 p) = Some h" by auto
        obtain cp q where s: "surrogate_pair h (drop 5 p) = (cp, q)"
          by (cases "surrogate_pair h (drop 5 p)")
        have "unescape p out pos = unescape (advance q) (fst (append_utf8 out pos cp))
            (snd (append_utf8 out pos cp))" for out pos
          using esc none True h s by (subst unescape.simps) (simp split: prod.split)
        then show thesis using emit surrogate_advance_less [OF s [symmetric] esc] by simp
      qed
    qed
  qed
qed

lemma append_utf8_bounds:
  "pos < length out \<Longrightarrow> length (fst (append_utf8 out pos cp)) = length out \<and>
     snd (append_utf8 out pos cp) < length out"
  by (auto simp: append_utf8_def)

lemma unescape_bounds:
  "unescape p out pos = (err, out', pos') \<Longrightarrow> pos < length out \<Longrightarrow>
     length out' = length out \<and> pos' < length out \<and> err \<in> {SD_OK, SD_ERR_INVALID}"
proof (induction p arbitrary: out pos rule: length_induct)
  case (1 p)
  from unescape_turn [of p] show ?case
  proof cases
    case (emit cp q)
    then show ?thesis
      using "1.IH" [rule_format, OF emit(1), of "fst (append_utf8 out pos cp)" "snd (append_utf8 out pos cp)"]
        "1.prems" append_utf8_bounds [of pos out cp] by auto
  next
    case (copy c q)
    then show ?thesis
      using "1.IH" [rule_format, of q "out[pos := c]" "pos + 1"] "1.IH" [rule_format, of q out pos] "1.prems"
      by (simp split: if_splits)
  qed (use "1.prems" in auto)
qed

text \<open>The last place of a buffer is never written before the final terminator.\<close>

lemma append_utf8_last:
  "pos < length out \<Longrightarrow> fst (append_utf8 out pos cp) ! (length out - 1) = out ! (length out - 1)"
  by (auto simp: append_utf8_def nth_list_update)

lemma unescape_last:
  "unescape p out pos = (err, out', pos') \<Longrightarrow> pos < length out \<Longrightarrow> out' ! (length out - 1) = out ! (length out - 1)"
proof (induction p arbitrary: out pos rule: length_induct)
  case (1 p)
  from unescape_turn [of p] show ?case
  proof cases
    case (emit cp q)
    then show ?thesis
      using "1.IH" [rule_format, OF emit(1), of "fst (append_utf8 out pos cp)" "snd (append_utf8 out pos cp)"]
        "1.prems" append_utf8_bounds [of pos out cp] append_utf8_last [of pos out cp] by auto
  next
    case (copy c q)
    then show ?thesis
      using "1.IH" [rule_format, of q "out[pos := c]" "pos + 1"] "1.IH" [rule_format, of q out pos] "1.prems"
      by (auto simp: nth_list_update split: if_splits)
  qed (use "1.prems" in auto)
qed

lemma get_string_last:
  assumes "sd_json_get_string json key (Some buf) = (err, out)" and "buf \<noteq> []" "last buf = NUL"
  shows "\<exists>buf'. out = Some buf' \<and> terminated buf'"
proof (cases "\<exists>j k p. json = Some j \<and> key = Some k \<and> find_value j k = Some p \<and> deref p = QUOTE")
  case True
  then obtain j k p where a: "json = Some j" "key = Some k" "find_value j k = Some p" "deref p = QUOTE"
    by blast
  obtain e b q where u: "unescape (tl p) buf 0 = (e, b, q)" by (cases "unescape (tl p) buf 0")
  have "b ! (length buf - 1) = NUL" "length b = length buf" "q < length buf"
    using unescape_last [OF u] unescape_bounds [OF u] assms(2,3) by (simp_all add: last_conv_nth)
  then have "NUL \<in> set b" "NUL \<in> set (b[q := NUL])"
    using assms(2) by (metis diff_less length_greater_0_conv nth_mem zero_less_one, simp add: set_update_memI)
  then show ?thesis
    using assms(1,2) a u unescape_bounds [OF u] by (auto simp: sd_json_get_string_def terminated_def split: if_splits)
next
  case False
  have "terminated buf" using assms(2,3) last_in_set [of buf] by (auto simp: terminated_def)
  then show ?thesis
    using assms(1) False by (auto simp: sd_json_get_string_def split: option.splits if_splits)
qed

lemma get_string_length:
  assumes "sd_json_get_string json key (Some buf) = (err, out)"
  shows "\<exists>buf'. out = Some buf' \<and> length buf' = length buf"
proof (cases "\<exists>j k p. json = Some j \<and> key = Some k \<and> buf \<noteq> [] \<and> find_value j k = Some p \<and> deref p = QUOTE")
  case True
  then obtain j k p where a: "json = Some j" "key = Some k" "buf \<noteq> []" "find_value j k = Some p" "deref p = QUOTE"
    by blast
  obtain e b q where u: "unescape (tl p) buf 0 = (e, b, q)" by (cases "unescape (tl p) buf 0")
  then show ?thesis
    using assms a unescape_bounds [OF u] by (auto simp: sd_json_get_string_def split: if_splits)
next
  case False
  then show ?thesis
    using assms by (auto simp: sd_json_get_string_def split: option.splits if_splits)
qed

lemma get_string_ok:
  assumes "sd_json_get_string json key out = (SD_OK, out')"
  shows "\<exists>buf buf'. out = Some buf \<and> out' = Some buf' \<and> length buf' = length buf \<and>
    terminated buf' \<and> length (cstr buf') < length buf"
proof -
  from assms obtain j k buf p where a: "json = Some j" "key = Some k" "out = Some buf" "buf \<noteq> []"
      "find_value j k = Some p" "deref p = QUOTE"
    by (auto simp: sd_json_get_string_def split: option.splits if_splits)
  obtain e b q where u: "unescape (tl p) buf 0 = (e, b, q)" by (cases "unescape (tl p) buf 0")
  have b: "length b = length buf" "q < length buf"
    using unescape_bounds [OF u] a(4) by auto
  with assms a u have out': "out' = Some (b[q := NUL])"
    by (simp add: sd_json_get_string_def split: if_splits)
  moreover have "terminated (b[q := NUL])"
    using b by (simp add: terminated_def set_update_memI)
  ultimately show ?thesis
    using a(3) b cstr_length_less [of "b[q := NUL]"] by simp
qed

text \<open>
  Whether the text of a key uses only escapes that the reader knows does not depend on the buffer;
  when it does, the buffer is terminated, whatever the reader answers.
\<close>

definition escapes_ok :: "string \<Rightarrow> string \<Rightarrow> bool" where
  "escapes_ok json key \<longleftrightarrow>
     (case find_value json key of None \<Rightarrow> True
      | Some p \<Rightarrow> deref p = QUOTE \<longrightarrow> fst (unescape (tl p) [NUL] 0) = SD_OK)"

lemma unescape_verdict: "fst (unescape p out pos) = fst (unescape p out' pos')"
proof (induction p arbitrary: out pos out' pos' rule: length_induct)
  case (1 p)
  from unescape_turn [of p] show ?case
  proof cases
    case (emit cp q)
    then show ?thesis using "1.IH" by simp
  next
    case (copy c q)
    then show ?thesis using "1.IH" [rule_format, of q] by (auto split: if_splits)
  qed simp_all
qed

lemma get_string_escapes:
  assumes "sd_json_get_string (Some j) (Some k) (Some buf) = (err, out)" and "terminated buf" "escapes_ok j k"
  shows "\<exists>b. out = Some b \<and> terminated b"
proof (cases "err = SD_OK")
  case True
  then show ?thesis using get_string_ok [of "Some j" "Some k" "Some buf" out] assms(1) by auto
next
  case False
  have "buf \<noteq> []" using assms(2) by (auto simp: terminated_def)
  have v: "fst (unescape p buf 0) = fst (unescape p [NUL] 0)" for p by (rule unescape_verdict)
  have "out = Some buf"
    using assms(1,3) False \<open>buf \<noteq> []\<close> v
    by (auto simp: sd_json_get_string_def escapes_ok_def split: option.splits if_splits prod.splits) (metis fst_conv)+
  then show ?thesis using assms(2) by simp
qed


section \<open>Flat objects as the phone prints them\<close>

text \<open>
  A control message of \<open>json.dumps(msg, sort_keys=True, separators=(",", ":"))\<close>: string values
  are lists of code points, numbers are naturals.
\<close>

datatype json_value = JStr "nat list" | JNum nat

fun print_value :: "json_value \<Rightarrow> string" where
  "print_value (JStr v) = QUOTE # escape_all v @ [QUOTE]"
| "print_value (JNum n) = decimal n"

definition json_field :: "string \<times> json_value \<Rightarrow> string" where
  "json_field f = QUOTE # fst f @ [QUOTE] @ CHR '':'' # print_value (snd f)"

fun json_fields :: "(string \<times> json_value) list \<Rightarrow> string" where
  "json_fields [] = ''}''"
| "json_fields (f # fs) = json_field f @ (if fs = [] then ''}'' else CHR '','' # json_fields fs)"

definition json_object :: "(string \<times> json_value) list \<Rightarrow> string" where
  "json_object fs = CHR ''{'' # json_fields fs"

text \<open>Keys are names: letters, digits and underscores.\<close>

definition name_char :: "char \<Rightarrow> bool" where
  "name_char c \<longleftrightarrow> c = CHR ''_'' \<or> is_digit c \<or>
     0x41 \<le> code c \<and> code c \<le> 0x5A \<or> 0x61 \<le> code c \<and> code c \<le> 0x7A"

definition key_ok :: "string \<Rightarrow> bool" where
  "key_ok k \<longleftrightarrow> k \<noteq> [] \<and> length k < 62 \<and> list_all name_char k"

text \<open>
  A value that is the key, or ends in a double quote and the key, contains the token that the
  reader looks for; \<open>quiet\<close> excludes it.
\<close>

definition quiet :: "string \<Rightarrow> json_value \<Rightarrow> bool" where
  "quiet k x = (case x of
     JStr v \<Rightarrow> v \<noteq> map of_char k \<and> \<not> suffix (0x22 # map of_char k) v | JNum n \<Rightarrow> True)"

lemma name_char_neq:
  "name_char c \<Longrightarrow> c \<noteq> QUOTE \<and> c \<noteq> BACKSLASH \<and> c \<noteq> CHR '':'' \<and> c \<noteq> CHR '','' \<and> c \<noteq> CHR ''}'' \<and> c \<noteq> CHR ''{''"
  by (auto simp: name_char_def is_digit_def code_def)

lemma key_ok_cases: "key_ok k \<Longrightarrow> \<exists>c k'. k = c # k' \<and> name_char c \<and> list_all name_char k'"
  by (cases k) (auto simp: key_ok_def)

declare strstr.simps(2) [simp del]

lemma strstr_skip_char: "c \<noteq> QUOTE \<Longrightarrow> strstr (c # s) (key_token k) = strstr s (key_token k)"
  by (simp add: key_token_def strstr.simps(2))

lemma strstr_skip:
  "QUOTE \<notin> set a \<Longrightarrow> strstr (a @ s) (key_token k) = strstr s (key_token k)"
  by (induction a) (auto simp: strstr_skip_char simp del: eq_commute dest: not_sym)

lemma strstr_skip_quote:
  "take (Suc (length k)) s \<noteq> k @ [QUOTE] \<Longrightarrow> strstr (QUOTE # s) (key_token k) = strstr s (key_token k)"
  by (simp add: key_token_def strstr.simps(2))

lemma decimal_no_quote: "QUOTE \<notin> set (decimal n)"
proof (induction n rule: decimal.induct)
  case (1 n)
  then show ?case
    by (subst decimal.simps) (auto simp: digit_char_def char_of_eq dest: sym)
qed

lemma hex_char_no_quote: "d < 16 \<Longrightarrow> hex_char d \<noteq> QUOTE"
  by (auto simp: hex_char_def char_of_eq)

lemma u_escape_no_quote: "QUOTE \<notin> set (u_escape n)"
  using hex_char_no_quote [of "n div 4096 mod 16"] hex_char_no_quote [of "n div 256 mod 16"]
    hex_char_no_quote [of "n div 16 mod 16"] hex_char_no_quote [of "n mod 16"]
  by (auto simp: u_escape_def)

lemma escape_no_quote: "n \<noteq> 0x22 \<Longrightarrow> QUOTE \<notin> set (json_escape n)"
  using u_escape_no_quote char_of_eq [of n QUOTE] by (auto simp: json_escape_def)

lemma json_escape_quote: "json_escape 0x22 = [BACKSLASH, QUOTE]"
  by (simp add: json_escape_def)

lemma json_escape_hd: "\<exists>c cs. json_escape n = c # cs \<and> c \<noteq> QUOTE \<and> (c \<noteq> BACKSLASH \<longrightarrow> n = of_char c \<and> cs = [])"
proof -
  let ?short = "{0x22, 0x5C, 0x0A, 0x0D, 0x09, 0x0C, 0x08} :: nat set"
  consider (short) "n \<in> ?short" | (plain) "n \<notin> ?short" "0x20 \<le> n" "n \<le> 0x7E"
    | (u) "n \<notin> ?short" "\<not> (0x20 \<le> n \<and> n \<le> 0x7E)" "n < 0x10000" | (pair) "0x10000 \<le> n"
    by linarith
  then show ?thesis
  proof cases
    case short
    then show ?thesis by (rule json_escape_short) simp
  next
    case plain
    then have "n \<noteq> of_char QUOTE" "n < 256" by simp_all
    then have "char_of n \<noteq> QUOTE" "of_char (char_of n :: char) = n"
      by (simp_all only: char_of_eq of_char_of mod_less simp_thms)
    then show ?thesis using json_escape_plain [OF plain] by simp
  next
    case u
    then show ?thesis unfolding json_escape_u [OF u] u_escape_def by simp
  next
    case pair
    then show ?thesis unfolding json_escape_pair [OF pair] u_escape_def by simp
  qed
qed

text \<open>The token matches behind a double quote only when the rest of the value is the key.\<close>

lemma match_at_end:
  assumes "list_all name_char k" and "take (Suc (length k)) (escape_all v @ QUOTE # rest) = k @ [QUOTE]"
  shows "v = map of_char k"
  using assms
proof (induction k arbitrary: v)
  case Nil
  show ?case
  proof (cases v)
    case (Cons n v')
    then show ?thesis
      using Nil.prems json_escape_hd [of n] by (auto simp: escape_all_def)
  qed simp
next
  case (Cons c k)
  have c: "c \<noteq> QUOTE" "c \<noteq> BACKSLASH" "list_all name_char k"
    using Cons.prems(1) name_char_neq [of c] by auto
  show ?case
  proof (cases v)
    case Nil
    then show ?thesis using Cons.prems(2) c by (simp add: escape_all_def)
  next
    case (Cons n v')
    obtain c' cs where e: "json_escape n = c' # cs" "c' \<noteq> BACKSLASH \<longrightarrow> n = of_char c' \<and> cs = []"
      using json_escape_hd by blast
    have "c' = c"
      using Cons.prems(2) Cons e by (simp add: escape_all_def)
    then have "n = of_char c" "cs = []" using e c by auto
    then have "take (Suc (length k)) (escape_all v' @ QUOTE # rest) = k @ [QUOTE]"
      using Cons.prems(2) Cons e \<open>c' = c\<close> by (simp add: escape_all_def)
    then show ?thesis
      using Cons.IH c(3) Cons \<open>n = of_char c\<close> by simp
  qed
qed

lemma strstr_skip_content:
  assumes k: "key_ok k" and "\<not> suffix (0x22 # map of_char k) v"
    and rest: "take (Suc (length k)) rest \<noteq> k @ [QUOTE]"
  shows "strstr (escape_all v @ QUOTE # rest) (key_token k) = strstr rest (key_token k)"
  using assms(2)
proof (induction v)
  case Nil
  then show ?case using rest by (simp add: escape_all_def strstr_skip_quote)
next
  case (Cons n v)
  have IH: "strstr (escape_all v @ QUOTE # rest) (key_token k) = strstr rest (key_token k)"
  proof (rule Cons.IH)
    show "\<not> suffix (0x22 # map of_char k) v"
      using Cons.prems by (simp add: suffix_Cons)
  qed
  have split: "escape_all (n # v) @ QUOTE # rest = json_escape n @ escape_all v @ QUOTE # rest"
    by (simp add: escape_all_def)
  show ?case
  proof (cases "n = 0x22")
    case False
    then show ?thesis using IH by (simp only: split strstr_skip [OF escape_no_quote [OF False]])
  next
    case True
    have "v \<noteq> map of_char k"
      using Cons.prems True by (auto simp: suffix_Cons)
    then have "take (Suc (length k)) (escape_all v @ QUOTE # rest) \<noteq> k @ [QUOTE]"
      using match_at_end k by (auto simp: key_ok_def)
    then show ?thesis
      unfolding split unfolding True json_escape_quote
      using IH by (simp add: strstr_skip_char strstr_skip_quote del: take_append)
  qed
qed

lemma not_name_start: "key_ok k \<Longrightarrow> \<not> name_char c \<Longrightarrow> take (Suc (length k)) (c # rest) \<noteq> k @ [QUOTE]"
  using key_ok_cases [of k] by auto

lemma strstr_skip_literal:
  assumes k: "key_ok k" and q: "quiet k (JStr v)" and c: "\<not> name_char c"
  shows "strstr (QUOTE # escape_all v @ QUOTE # c # rest) (key_token k) = strstr (c # rest) (key_token k)"
proof -
  have "take (Suc (length k)) (escape_all v @ QUOTE # c # rest) \<noteq> k @ [QUOTE]"
    using match_at_end [of k v] k q by (auto simp: key_ok_def quiet_def)
  then show ?thesis
    using strstr_skip_content [OF k _ not_name_start [OF k c], of v] q
    by (simp add: strstr_skip_quote quiet_def)
qed

lemma escape_name: "list_all name_char k \<Longrightarrow> escape_all (map of_char k) = k"
proof (induction k)
  case (Cons c k)
  have "json_escape (of_char c) = [c]"
  proof -
    have "0x20 \<le> code c \<and> code c \<le> 0x7E \<and> code c \<notin> {0x22, 0x5C}"
      using Cons.prems name_char_def [of c] is_digit_def [of c] by (auto simp: code_def)
    then show ?thesis by (simp add: json_escape_def code_def)
  qed
  then show ?case using Cons by (simp add: escape_all_def)
qed (simp add: escape_all_def)

lemma quiet_key:
  assumes "key_ok k" "key_ok k'" "k \<noteq> k'"
  shows "quiet k (JStr (map of_char k'))"
proof -
  have "\<not> suffix ((0x22::nat) # map of_char k) (map of_char k')"
  proof
    assume "suffix ((0x22::nat) # map of_char k) (map of_char k')"
    then have "set (0x22 # map of_char k) \<subseteq> (set (map of_char k') :: nat set)"
      by (rule set_mono_suffix)
    then have "(0x22::nat) \<in> of_char ` set k'" by simp
    then obtain c where "c \<in> set k'" "of_char c = (0x22::nat)" by auto
    moreover have "char_of (0x22::nat) = QUOTE" by (simp add: char_of_eq)
    ultimately have "QUOTE \<in> set k'" by (metis char_of_char)
    then show False
      using assms(2) name_char_neq by (auto simp: key_ok_def list_all_iff)
  qed
  moreover have "map of_char k' \<noteq> (map of_char k :: nat list)"
    using assms(3) inj_map_eq_map [of "of_char :: char \<Rightarrow> nat" k' k] by (auto simp: inj_on_def)
  ultimately show ?thesis by (simp add: quiet_def)
qed

lemma strstr_skip_name:
  assumes "key_ok k" "key_ok k'" "k \<noteq> k'" "\<not> name_char c"
  shows "strstr (QUOTE # k' @ QUOTE # c # rest) (key_token k) = strstr (c # rest) (key_token k)"
  using strstr_skip_literal [OF assms(1) quiet_key [OF assms(1-3)] assms(4), of rest] assms(2)
  by (simp add: escape_name key_ok_def)

lemma not_name_punctuation: "\<not> name_char CHR '':''" "\<not> name_char CHR '',''" "\<not> name_char CHR ''}''"
  using name_char_neq by blast+

lemma strstr_skip_field:
  assumes k: "key_ok k" and f: "key_ok (fst f)" "fst f \<noteq> k" "quiet k (snd f)" and c: "\<not> name_char c" "c \<noteq> QUOTE"
  shows "strstr (json_field f @ c # rest) (key_token k) = strstr rest (key_token k)"
proof -
  have "strstr (json_field f @ c # rest) (key_token k) =
      strstr (CHR '':'' # print_value (snd f) @ c # rest) (key_token k)"
    using strstr_skip_name [OF k f(1) f(2) [symmetric] not_name_punctuation(1), of "print_value (snd f) @ c # rest"]
    by (simp add: json_field_def)
  also have "\<dots> = strstr (c # rest) (key_token k)"
    using strstr_skip_literal [OF k _ c(1)] f(3) strstr_skip [OF decimal_no_quote]
    by (cases "snd f") (simp_all add: strstr_skip_char)
  finally show ?thesis using c(2) by (simp add: strstr_skip_char)
qed

lemma strstr_fields:
  assumes "key_ok k" and "\<forall>f\<in>set pre. key_ok (fst f) \<and> fst f \<noteq> k \<and> quiet k (snd f)"
  shows "\<exists>tail. strstr (json_fields (pre @ (k, x) # post)) (key_token k) =
    Some (key_token k @ CHR '':'' # print_value x @ tail) \<and> tail \<noteq> [] \<and> (hd tail = CHR '','' \<or> hd tail = CHR ''}'')"
  using assms(2)
proof (induction pre)
  case Nil
  have "json_fields ((k, x) # post) = key_token k @ CHR '':'' # print_value x @
      (if post = [] then ''}'' else CHR '','' # json_fields post)"
    by (simp add: json_field_def key_token_def)
  then show ?case
    by (simp add: key_token_def strstr.simps(2))
next
  case (Cons f pre)
  then have "strstr (json_fields ((f # pre) @ (k, x) # post)) (key_token k) =
      strstr (json_fields (pre @ (k, x) # post)) (key_token k)"
    using strstr_skip_field [OF assms(1), of f "CHR '',''"] not_name_punctuation by simp
  then show ?case using Cons by simp
qed

lemma find_value_object:
  assumes "key_ok k" and "\<forall>f\<in>set pre. key_ok (fst f) \<and> fst f \<noteq> k \<and> quiet k (snd f)"
  obtains tail where "find_value (json_object (pre @ (k, x) # post)) k = Some (print_value x @ tail)"
    "tail \<noteq> []" "hd tail = CHR '','' \<or> hd tail = CHR ''}''"
proof -
  obtain tail where t: "strstr (json_fields (pre @ (k, x) # post)) (key_token k) =
      Some (key_token k @ CHR '':'' # print_value x @ tail)" "tail \<noteq> []"
      "hd tail = CHR '','' \<or> hd tail = CHR ''}''"
    using strstr_fields [OF assms] by blast
  have d: "skip_ws (print_value x @ tail) = print_value x @ tail"
  proof (cases x)
    case (JNum n)
    obtain c s where s: "decimal n = c # s" "is_digit c"
      using decimal_hd by blast
    then have "c \<noteq> CHR '' ''" "c \<noteq> TAB" by (auto simp: is_digit_def code_def)
    then show ?thesis using JNum s by simp
  qed simp
  have "strstr (json_object (pre @ (k, x) # post)) (key_token k) =
      Some (key_token k @ CHR '':'' # print_value x @ tail)"
    using t(1) by (simp add: json_object_def strstr_skip_char)
  moreover have "length (key_token k) < 64"
    using assms(1) by (simp add: key_token_def key_ok_def)
  ultimately have "find_value (json_object (pre @ (k, x) # post)) k = Some (print_value x @ tail)"
    using d by (simp add: find_value_def)
  then show thesis using that t by blast
qed

text \<open>The field the reader finds under a key: the first one, if no field before it holds the quoted key.\<close>

fun field :: "string \<Rightarrow> (string \<times> json_value) list \<Rightarrow> json_value option" where
  "field k [] = None"
| "field k ((k', x) # fs) =
     (if k' = k then Some x else if key_ok k' \<and> quiet k x then field k fs else None)"

lemma field_split:
  "field k fs = Some x \<Longrightarrow> \<exists>pre post. fs = pre @ (k, x) # post \<and>
     (\<forall>f\<in>set pre. key_ok (fst f) \<and> fst f \<noteq> k \<and> quiet k (snd f))"
proof (induction k fs rule: field.induct)
  case (2 k k' y fs)
  show ?case
  proof (cases "k' = k")
    case True
    then show ?thesis using "2.prems" by (intro exI [of _ "[]"] exI [of _ fs]) simp
  next
    case False
    then have k': "key_ok k' \<and> quiet k y" and "field k fs = Some x"
      using "2.prems" by (auto split: if_splits)
    with "2.IH" [OF False k'] obtain pre post where "fs = pre @ (k, x) # post"
        "\<forall>f\<in>set pre. key_ok (fst f) \<and> fst f \<noteq> k \<and> quiet k (snd f)" by blast
    then show ?thesis using False k' by (intro exI [of _ "(k', y) # pre"] exI [of _ post]) simp
  qed
qed simp

lemma find_value_field:
  assumes "key_ok k" and "field k fs = Some x"
  obtains tail where "find_value (json_object fs) k = Some (print_value x @ tail)"
    "tail \<noteq> []" "hd tail = CHR '','' \<or> hd tail = CHR ''}''"
proof -
  obtain pre post where fs: "fs = pre @ (k, x) # post"
    and pre: "\<forall>f\<in>set pre. key_ok (fst f) \<and> fst f \<noteq> k \<and> quiet k (snd f)"
    using field_split [OF assms(2)] by blast
  show thesis
    by (rule find_value_object [OF assms(1) pre, of x post]) (rule that, simp_all add: fs)
qed

lemma name_char_NUL: "\<not> name_char NUL"
  by (simp_all add: name_char_def is_digit_def code_def)

lemma key_ok_nul_free: "key_ok k \<Longrightarrow> nul_free k"
  using list_all_nul_free name_char_NUL by (auto simp: key_ok_def)

lemma nul_free_u_escape: "nul_free (u_escape n)"
  using hex_char_not_NUL [of "n div 4096 mod 16"] hex_char_not_NUL [of "n div 256 mod 16"]
    hex_char_not_NUL [of "n div 16 mod 16"] hex_char_not_NUL [of "n mod 16"]
  by (simp add: u_escape_def)

lemma nul_free_escape_all: "nul_free (escape_all v)"
proof -
  have "nul_free (json_escape n)" for n
    using nul_free_u_escape [of n] nul_free_u_escape char_of_eq [of n NUL]
    unfolding json_escape_def by (simp split: if_split)
  then show ?thesis by (induction v) (simp_all add: escape_all_def)
qed

lemma nul_free_json_object: "\<forall>f\<in>set fs. nul_free (fst f) \<Longrightarrow> nul_free (json_object fs)"
proof -
  have "nul_free (print_value x)" for x
    by (cases x) (simp_all add: nul_free_escape_all nul_free_decimal)
  then have "\<forall>f\<in>set fs. nul_free (fst f) \<Longrightarrow> nul_free (json_fields fs)"
    by (induction fs) (simp_all add: json_field_def)
  then show "\<forall>f\<in>set fs. nul_free (fst f) \<Longrightarrow> nul_free (json_object fs)"
    by (simp add: json_object_def)
qed

lemma nul_free_utf8_all: "\<forall>n\<in>set v. scalar n \<Longrightarrow> nul_free (utf8_all v)"
proof -
  have "nul_free (utf8 n)" if "scalar n" for n
    using that less_mult_imp_div_less [of n 16 262144] unfolding utf8_def scalar_def
    by (simp add: char_of_eq)
  then show "\<forall>n\<in>set v. scalar n \<Longrightarrow> nul_free (utf8_all v)"
    by (induction v) (simp_all add: utf8_all_def)
qed

lemma utf8_codes: "list_all (\<lambda>c. code c < 0x80) s \<Longrightarrow> utf8_all (map of_char s) = s"
  by (induction s) (simp_all add: utf8_all_def utf8_def code_def)

section \<open>What the readers return for the phone's messages\<close>

lemma uint_loop_append: "list_all is_digit s \<Longrightarrow> uint_loop (s @ t) v = uint_loop t (uint_loop s v)"
  by (induction s arbitrary: v) auto

lemma uint_loop_decimal: "uint_loop (decimal n) 0 = word_of_nat n"
proof (induction n rule: decimal.induct)
  case (1 n)
  have d: "code (digit_char d) - 0x30 = d" "is_digit (digit_char d)" if "d < 10" for d
    using that by (simp_all add: digit_char_def code_def is_digit_def)
  show ?case
  proof (cases "n < 10")
    case True
    then show ?thesis using d [of n] by (subst decimal.simps) simp
  next
    case False
    have "uint_loop (decimal n) 0 = uint_loop [digit_char (n mod 10)] (word_of_nat (n div 10))"
      using False 1 by (subst decimal.simps) (simp add: uint_loop_append decimal_digits)
    also have "\<dots> = word_of_nat (n div 10) * 10 + word_of_nat (n mod 10)"
      using d [of "n mod 10"] by simp
    also have "\<dots> = word_of_nat (n div 10 * 10 + n mod 10)"
      by (simp only: of_nat_add of_nat_mult of_nat_numeral)
    finally show ?thesis by simp
  qed
qed

lemma uint_loop_stop: "\<not> is_digit (hd t) \<Longrightarrow> t \<noteq> [] \<Longrightarrow> uint_loop t v = v"
  by (cases t) auto

lemma get_string_object:
  assumes "key_ok k" and "field k fs = Some (JStr v)"
    and "\<forall>n\<in>set v. scalar n" and "buf \<noteq> []"
  shows "sd_json_get_string (Some (json_object fs)) (Some k) (Some buf) =
    (let w = utf8_all (fit (length buf) v) in (SD_OK, Some (w @ NUL # drop (Suc (length w)) buf)))"
proof -
  obtain tail where f: "find_value (json_object fs) k = Some (print_value (JStr v) @ tail)"
    using find_value_field [OF assms(1,2)] by blast
  let ?w = "utf8_all (fit (length buf) v)"
  have u: "unescape (escape_all v @ QUOTE # tail) buf 0 = (SD_OK, ?w @ drop (length ?w) buf, length ?w)"
    using unescape_escape_all [OF assms(3), of tail "[]" buf] by (simp add: Let_def)
  have l: "length ?w < length buf" using fit_length assms(4) by simp
  then have "drop (length ?w) buf = buf ! length ?w # drop (Suc (length ?w)) buf"
    by (simp add: Cons_nth_drop_Suc)
  then have "(?w @ drop (length ?w) buf)[length ?w := NUL] = ?w @ NUL # drop (Suc (length ?w)) buf"
    by (simp only: list_update_length)
  then show ?thesis
    using f u l assms(4) by (simp add: sd_json_get_string_def Let_def)
qed

text \<open>
  C18: from a flat object as the phone prints it, \<open>sd_json_get_string\<close> returns the UTF-8 of
  the string stored under the key (every escape and surrogate pair undone), cut to the code points
  that fit, followed by a NUL; the bytes behind the NUL are untouched. The fields before the key must not
  hold the quoted key themselves.
\<close>

theorem sd_json_get_string_object:
  assumes "key_ok k" and "field k fs = Some (JStr v)"
    and "\<forall>n\<in>set v. scalar n" and "buf \<noteq> []"
  shows "\<exists>w. sd_json_get_string (Some (json_object fs)) (Some k) (Some buf) =
      (SD_OK, Some (utf8_all w @ NUL # drop (Suc (length (utf8_all w))) buf)) \<and>
    w = fit (length buf) v \<and> (length (utf8_all v) < length buf \<longrightarrow> w = v)"
  using get_string_object [OF assms] fit_all by (auto simp: Let_def)

lemma get_uint_object:
  assumes "key_ok k" and "field k fs = Some (JNum n)"
  shows "sd_json_get_uint (Some (json_object fs)) (Some k) (Some old) =
    (SD_OK, Some (word_of_nat n))"
proof -
  obtain tail where f: "find_value (json_object fs) k = Some (decimal n @ tail)"
      "tail \<noteq> []" "hd tail = CHR '','' \<or> hd tail = CHR ''}''"
    using find_value_field [OF assms] by (metis print_value.simps(2))
  have "is_digit (deref (decimal n @ tail))"
    using decimal_hd [of n] by auto
  moreover have "\<not> is_digit (hd tail)"
    using f(3) by (auto simp: is_digit_def code_def)
  ultimately show ?thesis
    using f uint_loop_append [OF decimal_digits, of n tail 0]
    by (simp add: sd_json_get_uint_def uint_loop_decimal uint_loop_stop)
qed

text \<open>
  C32: a number the phone prints under a key is read back modulo \<open>2 ^ 32\<close>, so exactly when it
  fits a \<open>uint32_t\<close>; a larger one is not rejected but wraps.
\<close>

theorem sd_json_get_uint_object:
  assumes "key_ok k" and "field k fs = Some (JNum n)"
  shows "\<exists>u. sd_json_get_uint (Some (json_object fs)) (Some k) (Some old) =
    (SD_OK, Some u) \<and> unat u = n mod 2 ^ 32"
  using get_uint_object [OF assms] by (simp add: unsigned_of_nat take_bit_nat_def)

text \<open>Concrete messages.\<close>

abbreviation codes :: "string \<Rightarrow> nat list" where
  "codes s \<equiv> map of_char s"

definition ai_fields :: "nat list \<Rightarrow> (string \<times> json_value) list" where
  "ai_fields text = [(''text'', JStr text), (''type'', JStr (codes ''ai_response''))]"


theorem sd_json_get_string_object_witness:
  "\<exists>w. sd_json_get_string (Some (json_object (ai_fields (codes ''Stop''))))
      (Some ''type'') (Some (replicate 32 (CHR ''x''))) =
      (SD_OK, Some (utf8_all w @ NUL # drop (Suc (length (utf8_all w))) (replicate 32 (CHR ''x'')))) \<and>
    w = fit (length (replicate 32 (CHR ''x''))) (codes ''ai_response'') \<and>
    (length (utf8_all (codes ''ai_response'')) < length (replicate 32 (CHR ''x'')) \<longrightarrow> w = codes ''ai_response'')"
  by (rule sd_json_get_string_object)
    (simp_all add: ai_fields_def key_ok_def name_char_def is_digit_def code_def quiet_def suffix_Cons scalar_def)

theorem sd_json_get_uint_object_witness:
  "\<exists>u. sd_json_get_uint (Some (json_object [(''chunks'', JNum 3), (''size'', JNum 4294967297)])) (Some ''size'') (Some 0) =
    (SD_OK, Some u) \<and> unat u = 4294967297 mod 2 ^ 32"
  by (rule sd_json_get_uint_object)
    (simp_all add: key_ok_def name_char_def is_digit_def code_def quiet_def)

text \<open>
  The reader only tries the first occurrence of the quoted key, so an answer whose text is \<open>type\<close>
  (sorted before the type) hides the type of the message.
\<close>

lemma value_hides_type:
  "fst (sd_json_get_string (Some (json_object (ai_fields (codes ''type'')))) (Some ''type'')
     (Some (replicate 32 NUL))) = SD_ERR_INVALID"
  by code_simp

text \<open>
  Truncation to the capacity leaves a hole, not a prefix: the three bytes of the euro sign do not
  fit five bytes, the letter behind it does.
\<close>

lemma truncation_not_prefix:
  "sd_json_get_string (Some (json_object [(''text'', JStr [0x61, 0x62, 0x20AC, 0x63])])) (Some ''text'')
     (Some [NUL, NUL, NUL, NUL, NUL]) = (SD_OK, Some [CHR ''a'', CHR ''b'', CHR ''c'', NUL, NUL])"
proof -
  let ?buf = "[NUL, NUL, NUL, NUL, NUL]"
  have "fit (length ?buf) [0x61, 0x62, 0x20AC, 0x63] = [0x61, 0x62, 0x63]"
    by (simp add: utf8_def)
  then have w: "utf8_all (fit (length ?buf) [0x61, 0x62, 0x20AC, 0x63]) = [CHR ''a'', CHR ''b'', CHR ''c'']"
    by (simp add: utf8_all_def utf8_def char_of_eq)
  have k: "key_ok ''text''"
    by (simp add: key_ok_def name_char_def is_digit_def code_def)
  have s: "\<forall>n\<in>set [0x61, 0x62, 0x20AC, 0x63]. scalar n"
    by (simp add: scalar_def)
  have e: "field ''text'' [(''text'', JStr [0x61, 0x62, 0x20AC, 0x63])] = Some (JStr [0x61, 0x62, 0x20AC, 0x63])" "?buf \<noteq> []"
    by simp_all
  show ?thesis
    unfolding get_string_object [OF k e(1) s e(2)] w Let_def by simp
qed

text \<open>An escape that JSON does not have stops the copy without a terminator.\<close>

lemma bad_escape_unterminated:
  "sd_json_get_string (Some (''{'' @ key_token ''text'' @ '':'' @ QUOTE # ''abcd'' @ BACKSLASH # ''x'' @ [QUOTE] @ ''}''))
     (Some ''text'') (Some (NUL # replicate 3 (CHR ''?''))) = (SD_ERR_INVALID, Some ''abc?'')"
  by code_simp
end
