(* ===== verification/Messages.thy ===== *)
theory Messages
  imports Framing Json Sha256
begin

text \<open>
  Control messages and bulk transfers (\<open>components/protocol/src/messages.c\<close>): the image sender,
  the classifier of one incoming control frame, and the receiver of an audio body. Everything
  goes through the framing operations, so the module is a client of the transport HAL's locale.

  Two inputs of the environment are arguments: \<open>alloc\<close> (does the one \<open>malloc\<close> of the function
  succeed) and \<open>type0\<close> (what the uninitialised \<open>char type[32]\<close> holds).
\<close>

section \<open>The code\<close>

definition SD_CHUNK_SIZE :: nat where "SD_CHUNK_SIZE = 4096"

datatype sd_msg_type =
    SD_MSG_UNKNOWN
  | SD_MSG_PONG
  | SD_MSG_DEVICE_INFO
  | SD_MSG_AI_RESPONSE
  | SD_MSG_PLAY_AUDIO
  | SD_MSG_AUDIO_BEGIN
  | SD_MSG_ERROR

definition sd_msg_send_ping :: "'t transport_ops \<Rightarrow> 't \<Rightarrow> sd_err \<times> 't" where
  "sd_msg_send_ping io t =
     sd_frame_send io t SD_KIND_JSON (Mem (bytes_of_string ''{\"type\":\"ping\"}''))"

subsection \<open>Sending an image\<close>

text \<open>What the two \<open>snprintf\<close> calls print; the length of the string is their result.\<close>

definition image_begin_json :: "string \<Rightarrow> nat \<Rightarrow> nat \<Rightarrow> string \<Rightarrow> string \<Rightarrow> string" where
  "image_begin_json image_id len chunks sha_hex media_type =
     ''{\"type\":\"image_begin\",\"image_id\":\"'' @ image_id @ ''\",\"size\":'' @ decimal len @
     '',\"chunks\":'' @ decimal chunks @ '',\"sha256\":\"'' @ sha_hex @
     ''\",\"media_type\":\"'' @ media_type @ ''\"}''"

definition image_end_json :: "string \<Rightarrow> string" where
  "image_end_json image_id = ''{\"type\":\"image_end\",\"image_id\":\"'' @ image_id @ ''\"}''"

definition chunk_count :: "nat \<Rightarrow> nat" where
  "chunk_count len =
     (let chunks = (len + SD_CHUNK_SIZE - 1) div SD_CHUNK_SIZE in if chunks = 0 then 1 else chunks)"

text \<open>One turn of the chunk loop fills \<open>frame\<close> with the sequence number and a slice.\<close>

definition chunk_frame :: "span \<Rightarrow> nat \<Rightarrow> byte list" where
  "chunk_frame data seq =
     (let start = seq * SD_CHUNK_SIZE;
          clen = (if start < span_len data then span_len data - start else 0);
          clen = (if clen > SD_CHUNK_SIZE then SD_CHUNK_SIZE else clen)
      in be32 seq @ take clen (drop start (span_bytes data)))"

fun send_chunks :: "'t transport_ops \<Rightarrow> span \<Rightarrow> nat list \<Rightarrow> 't \<Rightarrow> sd_err \<times> 't" where
  "send_chunks io data [] t = (SD_OK, t)"
| "send_chunks io data (seq # seqs) t =
     (case sd_frame_send io t SD_KIND_BINARY (Mem (chunk_frame data seq)) of (err, t1) \<Rightarrow>
        if err \<noteq> SD_OK then (err, t1) else send_chunks io data seqs t1)"

definition sd_msg_send_image ::
    "'t transport_ops \<Rightarrow> bool \<Rightarrow> 't \<Rightarrow> string option \<Rightarrow> span \<Rightarrow> string option \<Rightarrow> sd_err \<times> 't" where
  "sd_msg_send_image io alloc t image_id data media_type =
     (case (image_id, media_type) of
        (Some image_id, Some media_type) \<Rightarrow>
          if t_null io t \<or> span_bad data then (SD_ERR_INVALID, t)
          else (let len = span_len data;
                    chunks = chunk_count len;
                    sha_hex = sd_sha256_hex (span_bytes data) len;
                    begin_json = image_begin_json image_id len chunks sha_hex media_type;
                    end_json = image_end_json image_id
                in if length begin_json \<ge> 256 then (SD_ERR_INVALID, t)
                   else case sd_frame_send io t SD_KIND_JSON (Mem (bytes_of_string begin_json)) of
                     (err, t1) \<Rightarrow>
                       if err \<noteq> SD_OK then (err, t1)
                       else if \<not> alloc then (SD_ERR_NO_MEM, t1)
                       else case send_chunks io data [0..<chunks] t1 of (err, t2) \<Rightarrow>
                         if err \<noteq> SD_OK then (err, t2)
                         else if length end_json \<ge> 128 then (SD_ERR_INVALID, t2)
                         else sd_frame_send io t2 SD_KIND_JSON (Mem (bytes_of_string end_json)))
      | _ \<Rightarrow> (SD_ERR_INVALID, t))"

subsection \<open>Receiving a control frame\<close>

text \<open>The chain of \<open>strcmp\<close> calls: the message type and the key of its text.\<close>

definition classify :: "string \<Rightarrow> sd_msg_type \<times> string option" where
  "classify type =
     (if type = ''pong'' then (SD_MSG_PONG, None)
      else if type = ''device_info'' then (SD_MSG_DEVICE_INFO, None)
      else if type = ''ai_response'' then (SD_MSG_AI_RESPONSE, Some ''text'')
      else if type = ''play_audio'' then (SD_MSG_PLAY_AUDIO, Some ''content'')
      else if type = ''error'' then (SD_MSG_ERROR, Some ''message'')
      else if type = ''audio_begin'' then (SD_MSG_AUDIO_BEGIN, None)
      else (SD_MSG_UNKNOWN, None))"

text \<open>\<open>if (text_out && text_cap > 0) text_out[0] = '\\0'\<close>.\<close>

definition clear_text :: "char list option \<Rightarrow> char list option" where
  "clear_text text_out = map_option (\<lambda>buf. buf[0 := NUL]) text_out"

text \<open>
  The result is the error, \<open>*type_out\<close> (\<open>None\<close> where it is not written), the caller's text buffer,
  and the connection. The payload is terminated in place, so the message is the C string at its
  beginning.
\<close>

definition sd_msg_recv ::
    "'t transport_ops \<Rightarrow> bool \<Rightarrow> char list \<Rightarrow> 't \<Rightarrow> char list option
       \<Rightarrow> sd_err \<times> sd_msg_type option \<times> char list option \<times> 't" where
  "sd_msg_recv io alloc type0 t text_out =
     (let text_out = clear_text text_out
      in if \<not> alloc then (SD_ERR_NO_MEM, None, text_out, t)
         else case sd_frame_recv io t (8192 - 1) of (err, kind, buf, t1) \<Rightarrow>
           if err \<noteq> SD_OK then (err, None, text_out, t1)
           else if kind \<noteq> SD_KIND_JSON then (SD_ERR_IO, None, text_out, t1)
           else (let json = cstr (string_of_bytes buf @ [NUL])
                 in case sd_json_get_string (Some json) (Some ''type'') (Some type0) of (err, ty) \<Rightarrow>
                      if err \<noteq> SD_OK then (SD_ERR_IO, None, text_out, t1)
                      else (case classify (cstr (the ty)) of (mtype, text_key) \<Rightarrow>
                        (SD_OK, Some mtype,
                         (case text_out of
                            None \<Rightarrow> None
                          | Some text \<Rightarrow>
                              if text = [] then text_out
                              else if mtype = SD_MSG_AUDIO_BEGIN then Some (snprintf_str text json)
                              else (case text_key of
                                      None \<Rightarrow> text_out
                                    | Some key \<Rightarrow> snd (sd_json_get_string (Some json) (Some key) text_out))),
                         t1))))"

subsection \<open>Receiving an audio body\<close>

text \<open>
  \<open>None\<close> is an access outside the \<open>pcm\<close> object, which \<open>memcpy\<close> and the hash make undefined
  behaviour; \<open>pcm\<close> is that object (\<open>None\<close> for a NULL pointer) and \<open>pcm_cap\<close> the capacity the
  caller states. The offset is computed in 64 bits from the peer's 32-bit sequence number.
\<close>

definition chunk_offset :: "byte list \<Rightarrow> u64" where
  "chunk_offset frame =
     (let seq = word_of_nat (read_be32 (frame ! 0) (frame ! 1) (frame ! 2) (frame ! 3)) :: u32
      in ucast seq * of_nat SD_CHUNK_SIZE)"

definition store_chunk :: "byte list option \<Rightarrow> u64 \<Rightarrow> byte list \<Rightarrow> byte list option option" where
  "store_chunk pcm off bs =
     (if length bs > 0 then
        (case pcm of None \<Rightarrow> None | Some p \<Rightarrow> map_option Some (memcpy_at p (unat off) bs))
      else Some pcm)"

fun audio_chunks ::
    "'t transport_ops \<Rightarrow> nat \<Rightarrow> nat \<Rightarrow> byte list option \<Rightarrow> nat \<Rightarrow> 't
       \<Rightarrow> (sd_err \<times> byte list option \<times> nat \<times> 't) option" where
  "audio_chunks io pcm_cap 0 pcm tot t = Some (SD_OK, pcm, tot, t)"
| "audio_chunks io pcm_cap (Suc n) pcm tot t =
     (case sd_frame_recv io t (4 + SD_CHUNK_SIZE) of (err, kind, frame, t1) \<Rightarrow>
        if err \<noteq> SD_OK then Some (err, pcm, tot, t1)
        else if kind \<noteq> SD_KIND_BINARY \<or> length frame < 4 then Some (SD_ERR_IO, pcm, tot, t1)
        else (let dlen = length frame - 4;
                  off = chunk_offset frame
              in if off + of_nat dlen > of_nat pcm_cap then Some (SD_ERR_IO, pcm, tot, t1)
                 else (case store_chunk pcm off (drop 4 frame) of
                         None \<Rightarrow> None
                       | Some pcm' \<Rightarrow> audio_chunks io pcm_cap n pcm' (tot + dlen) t1)))"

definition pcm_hash :: "byte list option \<Rightarrow> nat \<Rightarrow> string option" where
  "pcm_hash pcm len =
     (if len > length (case pcm of None \<Rightarrow> [] | Some p \<Rightarrow> p) then None
      else Some (sd_sha256_hex (case pcm of None \<Rightarrow> [] | Some p \<Rightarrow> p) len))"

definition sd_msg_recv_audio_body ::
    "'t transport_ops \<Rightarrow> bool \<Rightarrow> 't \<Rightarrow> u32 \<Rightarrow> u32 \<Rightarrow> string option \<Rightarrow> byte list option \<Rightarrow> nat
       \<Rightarrow> (sd_err \<times> byte list option \<times> 't) option" where
  "sd_msg_recv_audio_body io alloc t chunks sz sha_hex pcm pcm_cap =
     (if t_null io t \<or> sha_hex = None \<or> (pcm = None \<and> sz > 0) \<or> pcm_cap < unat sz
      then Some (SD_ERR_INVALID, pcm, t)
      else if \<not> alloc then Some (SD_ERR_NO_MEM, pcm, t)
      else case audio_chunks io pcm_cap (unat chunks) pcm 0 t of
        None \<Rightarrow> None
      | Some (err, pcm, tot, t1) \<Rightarrow>
          if err \<noteq> SD_OK then Some (err, pcm, t1)
          else (case sd_frame_recv io t1 (4 + SD_CHUNK_SIZE) of (err, kind, frame, t2) \<Rightarrow>
            if err \<noteq> SD_OK then Some (err, pcm, t2)
            else if kind \<noteq> SD_KIND_JSON then Some (SD_ERR_IO, pcm, t2)
            else if tot \<noteq> unat sz then Some (SD_ERR_IO, pcm, t2)
            else (case pcm_hash pcm (unat sz) of
                    None \<Rightarrow> None
                  | Some hex \<Rightarrow>
                      if Some hex \<noteq> sha_hex then Some (SD_ERR_IO, pcm, t2)
                      else Some (SD_OK, pcm, t2))))"

section \<open>The image on the wire\<close>

text \<open>
  The specification of a transfer: a begin message with size, number of chunks and hash, the
  data cut into chunks of at most \<open>SD_CHUNK_SIZE\<close> bytes behind their sequence numbers, an end
  message.
\<close>

lemma chunk_size_pos [simp]: "0 < SD_CHUNK_SIZE"
  by (simp add: SD_CHUNK_SIZE_def)

function chunked :: "byte list \<Rightarrow> byte list list" where
  "chunked bs = (if length bs \<le> SD_CHUNK_SIZE then [bs]
     else take SD_CHUNK_SIZE bs # chunked (drop SD_CHUNK_SIZE bs))"
  by pat_completeness auto
termination
  by (relation "measure length") (use chunk_size_pos in \<open>auto simp del: chunk_size_pos\<close>)

declare chunked.simps [simp del]

definition numbered :: "nat \<Rightarrow> byte list list \<Rightarrow> byte list list" where
  "numbered i cs = map (\<lambda>(i, c). be32 i @ c) (zip [i..<i + length cs] cs)"

definition encode_all :: "byte \<Rightarrow> byte list list \<Rightarrow> byte list" where
  "encode_all k ps = concat (map (encode_frame k) ps)"

definition image_wire :: "string \<Rightarrow> byte list \<Rightarrow> string \<Rightarrow> byte list" where
  "image_wire image_id data media_type =
     (let cs = chunked data
      in encode_frame SD_KIND_JSON (bytes_of_string (image_begin_json image_id (length data) (length cs)
            (sd_sha256_hex data (length data)) media_type)) @
         encode_all SD_KIND_BINARY (numbered 0 cs) @
         encode_frame SD_KIND_JSON (bytes_of_string (image_end_json image_id)))"

lemma concat_chunked: "concat (chunked bs) = bs"
  by (induction bs rule: chunked.induct) (subst chunked.simps, simp)

lemma chunked_bound: "c \<in> set (chunked bs) \<Longrightarrow> length c \<le> SD_CHUNK_SIZE"
proof (induction bs rule: chunked.induct)
  case (1 bs)
  then show ?case by (subst (asm) (2) chunked.simps) (auto split: if_splits)
qed

lemma length_chunked: "length (chunked bs) = chunk_count (length bs)"
proof (induction bs rule: chunked.induct)
  case (1 bs)
  show ?case
  proof (cases "length bs \<le> SD_CHUNK_SIZE")
    case True
    then show ?thesis
      by (subst chunked.simps) (auto simp: chunk_count_def SD_CHUNK_SIZE_def Let_def)
  next
    case False
    then have "length (chunked bs) = Suc (chunk_count (length bs - SD_CHUNK_SIZE))"
      using 1 by (subst chunked.simps) simp
    then show ?thesis
      using False by (auto simp: chunk_count_def SD_CHUNK_SIZE_def Let_def)
  qed
qed

lemma nth_chunked:
  "i < length (chunked bs) \<Longrightarrow> chunked bs ! i = take SD_CHUNK_SIZE (drop (i * SD_CHUNK_SIZE) bs)"
proof (induction bs arbitrary: i rule: chunked.induct)
  case (1 bs)
  show ?case
  proof (cases "length bs \<le> SD_CHUNK_SIZE")
    case True
    then show ?thesis using 1(2) by (simp add: chunked.simps [of bs])
  next
    case False
    then show ?thesis
      using 1 by (cases i) (simp_all add: chunked.simps [of bs] add.commute)
  qed
qed

lemma length_numbered [simp]: "length (numbered i cs) = length cs"
  by (simp add: numbered_def)

lemma numbered_Nil [simp]: "numbered i [] = []"
  by (simp add: numbered_def)

lemma numbered_Cons: "numbered i (c # cs) = (be32 i @ c) # numbered (Suc i) cs"
  by (simp add: numbered_def upt_conv_Cons del: upt_Suc)

lemma numbered_chunks:
  "map (chunk_frame (Mem bs)) [0..<chunk_count (length bs)] = numbered 0 (chunked bs)"
proof (rule nth_equalityI)
  fix i assume "i < length (map (chunk_frame (Mem bs)) [0..<chunk_count (length bs)])"
  then have i: "i < length (chunked bs)" by (simp add: length_chunked)
  have "chunk_frame (Mem bs) i = be32 i @ take SD_CHUNK_SIZE (drop (i * SD_CHUNK_SIZE) bs)"
    by (auto simp: chunk_frame_def Let_def)
  then show "map (chunk_frame (Mem bs)) [0..<chunk_count (length bs)] ! i = numbered 0 (chunked bs) ! i"
    using i nth_chunked [OF i] by (simp add: numbered_def length_chunked)
qed (simp add: length_chunked)

lemma encode_all_simps [simp]:
  "encode_all k [] = []" "encode_all k (p # ps) = encode_frame k p @ encode_all k ps"
  by (simp_all add: encode_all_def)

lemma chunk_frame_length: "length (chunk_frame data seq) \<le> 4 + SD_CHUNK_SIZE"
  by (auto simp: chunk_frame_def Let_def)

context transport_hal
begin

lemma send_chunks_ok:
  "send_chunks io data seqs t = (SD_OK, t') \<Longrightarrow>
     sent t' = sent t @ encode_all SD_KIND_BINARY (map (chunk_frame data) seqs) \<and> incoming t' = incoming t"
proof (induction seqs arbitrary: t)
  case (Cons s seqs)
  then obtain t1 where "sd_frame_send io t SD_KIND_BINARY (Mem (chunk_frame data s)) = (SD_OK, t1)"
      "send_chunks io data seqs t1 = (SD_OK, t')"
    by (auto split: prod.splits if_splits)
  with Cons.IH frame_send_ok show ?case by fastforce
qed simp

lemma send_chunks_err:
  "send_chunks io data seqs t = (e, t') \<Longrightarrow> e \<noteq> SD_OK \<Longrightarrow>
     e \<in> {SD_ERR_INVALID, SD_ERR_IO, SD_ERR_TIMEOUT} \<and>
     (\<exists>j. sent t' = sent t @ take j (encode_all SD_KIND_BINARY (map (chunk_frame data) seqs)))"
proof (induction seqs arbitrary: t)
  case (Cons s seqs)
  obtain e1 t1 where f: "sd_frame_send io t SD_KIND_BINARY (Mem (chunk_frame data s)) = (e1, t1)"
    by (cases "sd_frame_send io t SD_KIND_BINARY (Mem (chunk_frame data s))")
  let ?F = "encode_frame SD_KIND_BINARY (chunk_frame data s)"
    and ?R = "encode_all SD_KIND_BINARY (map (chunk_frame data) seqs)"
  show ?case
  proof (cases "e1 = SD_OK")
    case True
    then have "send_chunks io data seqs t1 = (e, t')" using Cons.prems f by simp
    then obtain j where j: "sent t' = sent t1 @ take j ?R" and e: "e \<in> {SD_ERR_INVALID, SD_ERR_IO, SD_ERR_TIMEOUT}"
      using Cons.IH Cons.prems(2) by blast
    have "sent t' = sent t @ take (length ?F + j) (?F @ ?R)"
      using j frame_send_ok [OF f [unfolded True]] by simp
    then have "sent t' = sent t @ take (length ?F + j) (encode_all SD_KIND_BINARY (map (chunk_frame data) (s # seqs)))"
      by (simp only: list.map encode_all_simps)
    then show ?thesis using e by blast
  next
    case False
    then have f': "sd_frame_send io t SD_KIND_BINARY (Mem (chunk_frame data s)) = (e, t')"
      using Cons.prems f by simp
    from frame_send_err [OF this Cons.prems(2)] obtain j where
      j: "sent t' = sent t @ take j ?F" and e: "e \<in> {SD_ERR_INVALID, SD_ERR_IO, SD_ERR_TIMEOUT}"
      by (auto simp: encode_frame_def)
    have "take j ?F = take (min j (length ?F)) (?F @ ?R)" by (simp add: min_def)
    then have "sent t' = sent t @ take (min j (length ?F)) (encode_all SD_KIND_BINARY (map (chunk_frame data) (s # seqs)))"
      using j by (simp only: list.map encode_all_simps)
    then show ?thesis using e by blast
  qed
qed simp

lemma send_image_ok:
  assumes "sd_msg_send_image io alloc t image_id (Mem data) media_type = (SD_OK, t')"
  shows "\<exists>i m. image_id = Some i \<and> media_type = Some m \<and> sent t' = sent t @ image_wire i data m \<and>
    incoming t' = incoming t"
proof -
  obtain i m where im: "image_id = Some i" "media_type = Some m"
    using assms by (cases image_id; cases media_type) (auto simp: sd_msg_send_image_def)
  let ?b = "image_begin_json i (length data) (length (chunked data)) (sd_sha256_hex data (length data)) m"
  obtain t1 t2 where
    b: "sd_frame_send io t SD_KIND_JSON (Mem (bytes_of_string ?b)) = (SD_OK, t1)"
    and c: "send_chunks io (Mem data) [0..<chunk_count (length data)] t1 = (SD_OK, t2)"
    and e: "sd_frame_send io t2 SD_KIND_JSON (Mem (bytes_of_string (image_end_json i))) = (SD_OK, t')"
    using assms im
    by (auto simp: sd_msg_send_image_def Let_def length_chunked split: if_splits prod.splits)
  show ?thesis
    using im frame_send_ok [OF b] send_chunks_ok [OF c] frame_send_ok [OF e]
    by (simp add: image_wire_def Let_def numbered_chunks)
qed

text \<open>A failed transfer leaves a prefix of the specified bytes on the wire, whatever the failure.\<close>

lemma send_image_err:
  assumes "sd_msg_send_image io alloc t (Some i) (Mem data) (Some m) = (e, t')" and e: "e \<noteq> SD_OK"
  shows "\<exists>j. sent t' = sent t @ take j (image_wire i data m)"
proof -
  let ?b = "image_begin_json i (length data) (length (chunked data)) (sd_sha256_hex data (length data)) m"
  let ?B = "encode_frame SD_KIND_JSON (bytes_of_string ?b)"
    and ?C = "encode_all SD_KIND_BINARY (numbered 0 (chunked data))"
    and ?E = "encode_frame SD_KIND_JSON (bytes_of_string (image_end_json i))"
  have w: "image_wire i data m = ?B @ ?C @ ?E" by (simp add: image_wire_def Let_def)
  obtain eb t1 where b: "sd_frame_send io t SD_KIND_JSON (Mem (bytes_of_string ?b)) = (eb, t1)"
    by (cases "sd_frame_send io t SD_KIND_JSON (Mem (bytes_of_string ?b))")
  obtain ec t2 where c: "send_chunks io (Mem data) [0..<chunk_count (length data)] t1 = (ec, t2)"
    by (cases "send_chunks io (Mem data) [0..<chunk_count (length data)] t1")
  have whole: "sent t' = sent t \<or> sent t' = sent t @ ?B \<or> sent t' = sent t @ ?B @ ?C
      \<Longrightarrow> ?thesis"
  proof -
    have "take 0 (?B @ ?C @ ?E) = []" "take (length ?B) (?B @ ?C @ ?E) = ?B"
      "take (length (?B @ ?C)) (?B @ ?C @ ?E) = ?B @ ?C" by simp_all
    then show "sent t' = sent t \<or> sent t' = sent t @ ?B \<or> sent t' = sent t @ ?B @ ?C \<Longrightarrow> ?thesis"
      unfolding w by (metis append_Nil2)
  qed
  consider (early) "t' = t" | (start) "eb \<noteq> SD_OK" "e = eb" "t' = t1" | (memory) "eb = SD_OK" "t' = t1"
    | (chunks) "eb = SD_OK" "ec \<noteq> SD_OK" "e = ec" "t' = t2" | (name) "eb = SD_OK" "ec = SD_OK" "t' = t2"
    | (last) "eb = SD_OK" "ec = SD_OK"
        "sd_frame_send io t2 SD_KIND_JSON (Mem (bytes_of_string (image_end_json i))) = (e, t')"
    using assms b c by (auto simp: sd_msg_send_image_def Let_def length_chunked split: if_splits prod.splits)
  then show ?thesis
  proof cases
    case start
    from frame_send_err [OF b start(1)] obtain j where j: "sent t' = sent t @ take j ?B"
      using start by (auto simp: encode_frame_def)
    have "take j ?B = take (min j (length ?B)) (?B @ ?C @ ?E)" by (simp add: min_def)
    then show ?thesis using j w by metis
  next
    case chunks
    from send_chunks_err [OF c chunks(2)] obtain j where j: "sent t' = sent t1 @ take j ?C"
      using chunks by (auto simp: numbered_chunks)
    have "sent t1 = sent t @ ?B" using frame_send_ok [OF b [unfolded chunks(1)]] by simp
    moreover have "?B @ take j ?C = take (length ?B + min j (length ?C)) (?B @ ?C @ ?E)"
      by (simp add: min_def)
    ultimately show ?thesis using j w by (metis append.assoc)
  next
    case last
    from frame_send_err [OF last(3) e] obtain j where j: "sent t' = sent t2 @ take j ?E"
      by (auto simp: encode_frame_def)
    have "sent t2 = sent t @ ?B @ ?C"
      using frame_send_ok [OF b [unfolded last(1)]] send_chunks_ok [OF c [unfolded last(2)]]
      by (simp add: numbered_chunks)
    moreover have "(?B @ ?C) @ take j ?E = take (length (?B @ ?C) + j) ((?B @ ?C) @ ?E)" by simp
    ultimately show ?thesis using j w by (metis append.assoc)
  next
    case early
    then show ?thesis using whole by simp
  next
    case memory
    then show ?thesis using whole frame_send_ok [OF b [unfolded memory(1)]] by simp
  next
    case name
    then show ?thesis
      using whole frame_send_ok [OF b [unfolded name(1)]] send_chunks_ok [OF c [unfolded name(2)]]
      by (simp add: numbered_chunks)
  qed
qed

end

section \<open>Reassembling the audio\<close>

lemma unat_chunk_offset:
  "unat (chunk_offset frame) =
     read_be32 (frame ! 0) (frame ! 1) (frame ! 2) (frame ! 3) * SD_CHUNK_SIZE"
proof -
  let ?n = "read_be32 (frame ! 0) (frame ! 1) (frame ! 2) (frame ! 3)"
  have n: "?n < 2 ^ 32" by (rule read_be32_less)
  have "unat (ucast (word_of_nat ?n :: u32) :: u64) = ?n"
    using n by (simp add: unsigned_ucast_eq unsigned_of_nat take_bit_nat_eq_self)
  moreover have "unat (of_nat SD_CHUNK_SIZE :: u64) = SD_CHUNK_SIZE"
    by (simp add: SD_CHUNK_SIZE_def)
  moreover have "?n * SD_CHUNK_SIZE < 2 ^ LENGTH(64)"
    using n by (simp add: SD_CHUNK_SIZE_def)
  ultimately show ?thesis
    unfolding chunk_offset_def Let_def by (metis unat_mult_lem)
qed

lemma chunk_offset_be32: "i < 2 ^ 32 \<Longrightarrow> unat (chunk_offset (be32 i @ c)) = i * SD_CHUNK_SIZE"
proof -
  assume i: "i < 2 ^ 32"
  obtain b0 b1 b2 b3 where b: "be32 i = [b0, b1, b2, b3]" by (simp add: be32_def)
  then have "read_be32 b0 b1 b2 b3 = i" using i by (intro read_be32_of_be32)
  then show ?thesis using b by (simp add: unat_chunk_offset)
qed

text \<open>The 64-bit sum of offset and length cannot wrap, so the check bounds the real numbers.\<close>

lemma chunk_offset_less: "unat (chunk_offset frame) < 2 ^ 44"
  using read_be32_less [of "frame ! 0" "frame ! 1" "frame ! 2" "frame ! 3"]
  by (simp add: unat_chunk_offset SD_CHUNK_SIZE_def)

lemma offset_check:
  assumes "n \<le> SD_CHUNK_SIZE" and "cap < 2 ^ 64"
  shows "chunk_offset frame + of_nat n > of_nat cap \<longleftrightarrow> unat (chunk_offset frame) + n > cap"
proof -
  have n: "unat (of_nat n :: u64) = n"
    using assms by (simp add: unsigned_of_nat take_bit_nat_eq_self SD_CHUNK_SIZE_def)
  have "unat (chunk_offset frame) + n < 2 ^ LENGTH(64)"
    using chunk_offset_less [of frame] assms by (simp add: SD_CHUNK_SIZE_def)
  then have "unat (chunk_offset frame + of_nat n) = unat (chunk_offset frame) + n"
    using n by (metis unat_add_lem)
  moreover have "unat (of_nat cap :: u64) = cap"
    using assms by (simp add: unsigned_of_nat take_bit_nat_eq_self)
  ultimately show ?thesis by (simp add: word_less_nat_alt)
qed

text \<open>The hash reads only the bytes it is given the length of.\<close>

lemma sd_sha256_take: "len \<le> length data \<Longrightarrow> sd_sha256 data len = sd_sha256 (take len data) len"
proof -
  assume len: "len \<le> length data"
  have "fold (\<lambda>i h. transform h (take 64 (drop (i * 64) data))) [0..<len div 64] H0 =
      fold (\<lambda>i h. transform h (take 64 (drop (i * 64) (take len data)))) [0..<len div 64] H0"
  proof (rule fold_cong)
    fix i assume "i \<in> set [0..<len div 64]"
    then have "i * 64 + 64 \<le> len" by auto
    then have "take 64 (drop (i * 64) data) = take 64 (drop (i * 64) (take len data))"
      by (simp add: drop_take min_def)
    then show "(\<lambda>h. transform h (take 64 (drop (i * 64) data))) =
        (\<lambda>h. transform h (take 64 (drop (i * 64) (take len data))))"
      by simp
  qed auto
  moreover have "take (len - len div 64 * 64) (drop (len div 64 * 64) data) =
      take (len - len div 64 * 64) (drop (len div 64 * 64) (take len data))"
    by (simp add: drop_take min_def)
  ultimately show ?thesis unfolding sd_sha256_def by (simp only: Let_def)
qed

lemma pcm_hash_take:
  "len \<le> length p \<Longrightarrow> pcm_hash (Some p) len = Some (sd_sha256_hex (take len p) len)"
  using sd_sha256_take [of len p] by (simp add: pcm_hash_def sd_sha256_hex_def)

lemma store_chunk_inside:
  "unat off + length bs \<le> length p \<Longrightarrow>
     store_chunk (Some p) off bs = Some (Some (take (unat off) p @ bs @ drop (unat off + length bs) p))"
  by (auto simp: store_chunk_def memcpy_at_def)

lemma store_chunk_length: "store_chunk (Some p) off bs = Some (Some p') \<Longrightarrow> length p' = length p"
  by (auto simp: store_chunk_def dest: memcpy_at_length split: if_splits)

lemma length_numbered_bound: "f \<in> set (numbered i (chunked bs)) \<Longrightarrow> length f \<le> 4 + SD_CHUNK_SIZE"
  using chunked_bound by (auto simp: numbered_def dest!: set_zip_rightD) 

lemma chunk_frame_max: "4 + SD_CHUNK_SIZE \<le> SD_MAX_FRAME_BYTES"
  by (simp add: SD_CHUNK_SIZE_def SD_MAX_FRAME_BYTES_def)

context transport_hal
begin

text \<open>Whatever arrives, no chunk is stored outside the buffer.\<close>

lemma audio_chunks_safe:
  assumes "cap \<le> length p" "cap < 2 ^ 64"
  shows "\<exists>e p' tot' t'. audio_chunks io cap n (Some p) tot t = Some (e, Some p', tot', t') \<and>
    length p' = length p \<and> sent t' = sent t"
  using assms
proof (induction n arbitrary: p tot t)
  case (Suc n)
  obtain e k f t1 where r: "sd_frame_recv io t (4 + SD_CHUNK_SIZE) = (e, k, f, t1)"
    by (cases "sd_frame_recv io t (4 + SD_CHUNK_SIZE)")
  have s1: "sent t1 = sent t" using frame_recv_errors [OF r] by simp
  show ?case
  proof (cases "e = SD_OK \<and> k = SD_KIND_BINARY \<and> 4 \<le> length f \<and>
      \<not> chunk_offset f + of_nat (length f - 4) > of_nat cap")
    case False
    then show ?thesis using r s1 Suc.prems by (auto simp: Let_def)
  next
    case True
    then have "length f - 4 \<le> SD_CHUNK_SIZE" using frame_recv_ok r by fastforce
    then have "unat (chunk_offset f) + (length f - 4) \<le> cap"
      using True offset_check Suc.prems(2) by (metis linorder_not_less)
    then obtain p' where p': "store_chunk (Some p) (chunk_offset f) (drop 4 f) = Some (Some p')"
      using store_chunk_inside [of "chunk_offset f" "drop 4 f" p] Suc.prems by auto
    then have "length p' = length p" using store_chunk_length by auto
    then show ?thesis
      using Suc.IH [of p' "tot + (length f - 4)" t1] Suc.prems True r p' s1 by (simp add: Let_def)
  qed
qed simp

lemma audio_chunks_step:
  assumes "\<not> t_null io t" and "incoming t = encode_frame SD_KIND_BINARY (be32 i @ c) @ rest"
    and "length c \<le> SD_CHUNK_SIZE" and "i < 2 ^ 32" and "i * SD_CHUNK_SIZE + length c \<le> length p"
    and "length p = cap" and "cap < 2 ^ 64"
  shows "\<exists>t'. audio_chunks io cap (Suc n) (Some p) tot t =
      audio_chunks io cap n (Some (take (i * SD_CHUNK_SIZE) p @ c @ drop (i * SD_CHUNK_SIZE + length c) p))
        (tot + length c) t' \<and>
    \<not> t_null io t' \<and> incoming t' = rest \<and> sent t' = sent t"
proof -
  have l: "length (be32 i @ c) \<le> 4 + SD_CHUNK_SIZE" using assms(3) by simp
  then have "length (be32 i @ c) \<le> SD_MAX_FRAME_BYTES" using chunk_frame_max by linarith
  from frame_recv_encoded [OF assms(1,2) kind_ok_simps(2) this l] obtain t' where
    t': "sd_frame_recv io t (4 + SD_CHUNK_SIZE) = (SD_OK, SD_KIND_BINARY, be32 i @ c, t')"
      "\<not> t_null io t'" "incoming t' = rest" "sent t' = sent t" by blast
  have off: "unat (chunk_offset (be32 i @ c)) = i * SD_CHUNK_SIZE"
    by (rule chunk_offset_be32 [OF assms(4)])
  have "\<not> chunk_offset (be32 i @ c) + of_nat (length c) > of_nat cap"
    using offset_check [OF assms(3,7), of "be32 i @ c"] off assms(5,6) by simp
  moreover have "store_chunk (Some p) (chunk_offset (be32 i @ c)) c =
      Some (Some (take (i * SD_CHUNK_SIZE) p @ c @ drop (i * SD_CHUNK_SIZE + length c) p))"
    using store_chunk_inside [of "chunk_offset (be32 i @ c)" c p] off assms(5) by simp
  ultimately show ?thesis using t' by (intro exI [of _ t']) (simp add: Let_def)
qed

lemma audio_chunks_data:
  assumes "\<not> t_null io t" and "incoming t = encode_all SD_KIND_BINARY (numbered i (chunked bs)) @ rest"
    and "i + length (chunked bs) \<le> 2 ^ 32" and "i * SD_CHUNK_SIZE + length bs \<le> length p"
    and "length p = cap" and "cap < 2 ^ 64"
  shows "\<exists>t'. audio_chunks io cap (length (chunked bs)) (Some p) tot t =
      Some (SD_OK, Some (take (i * SD_CHUNK_SIZE) p @ bs @ drop (i * SD_CHUNK_SIZE + length bs) p),
        tot + length bs, t') \<and>
    \<not> t_null io t' \<and> incoming t' = rest \<and> sent t' = sent t"
  using assms
proof (induction bs arbitrary: i p tot t rule: chunked.induct)
  case (1 bs)
  show ?case
  proof (cases "length bs \<le> SD_CHUNK_SIZE")
    case True
    then have "chunked bs = [bs]" by (subst chunked.simps) simp
    then show ?thesis
      using audio_chunks_step [of t i bs rest p cap 0 tot] "1.prems" True by (simp add: numbered_Cons)
  next
    case False
    let ?c = "take SD_CHUNK_SIZE bs" and ?bs = "drop SD_CHUNK_SIZE bs" and ?o = "i * SD_CHUNK_SIZE"
    let ?p = "take ?o p @ ?c @ drop (?o + length ?c) p"
    have split: "chunked bs = ?c # chunked ?bs" using False by (subst chunked.simps) simp
    have inc: "incoming t = encode_frame SD_KIND_BINARY (be32 i @ ?c) @
        encode_all SD_KIND_BINARY (numbered (Suc i) (chunked ?bs)) @ rest"
      using "1.prems"(2) split by (simp add: numbered_Cons)
    have fits: "i < 2 ^ 32" "?o + length ?c \<le> length p" using "1.prems"(3,4) split False by simp_all
    obtain t1 where t1: "audio_chunks io cap (Suc (length (chunked ?bs))) (Some p) tot t =
        audio_chunks io cap (length (chunked ?bs)) (Some ?p) (tot + length ?c) t1"
        "\<not> t_null io t1" "incoming t1 = encode_all SD_KIND_BINARY (numbered (Suc i) (chunked ?bs)) @ rest"
        "sent t1 = sent t"
      using audio_chunks_step [OF "1.prems"(1) inc _ fits(1,2) "1.prems"(5,6), of "length (chunked ?bs)" tot]
      by auto
    have lp: "length ?p = cap" using "1.prems"(4,5) False by simp
    have "\<exists>t'. audio_chunks io cap (length (chunked ?bs)) (Some ?p) (tot + length ?c) t1 =
        Some (SD_OK, Some (take (Suc i * SD_CHUNK_SIZE) ?p @ ?bs @ drop (Suc i * SD_CHUNK_SIZE + length ?bs) ?p),
          tot + length ?c + length ?bs, t') \<and> \<not> t_null io t' \<and> incoming t' = rest \<and> sent t' = sent t1"
      using "1.prems" split lp False by (intro "1.IH" [OF False t1(2,3)]) (auto simp: add.commute)
    moreover have "take (Suc i * SD_CHUNK_SIZE) ?p @ ?bs @ drop (Suc i * SD_CHUNK_SIZE + length ?bs) ?p =
        take ?o p @ bs @ drop (?o + length bs) p"
    proof -
      have "take (Suc i * SD_CHUNK_SIZE) ?p = take ?o p @ ?c"
        using "1.prems"(4) False by (simp add: min_def)
      moreover have "drop (Suc i * SD_CHUNK_SIZE + length ?bs) ?p = drop (?o + length bs) p"
        using "1.prems"(4) False by (simp add: min_def add.commute)
      moreover have "?c @ ?bs = bs" by simp
      ultimately show ?thesis by (metis append.assoc)
    qed
    ultimately show ?thesis using t1 split False by (auto simp: min_def)
  qed
qed

end

section \<open>Receiving, on every stream\<close>

context transport_hal
begin

lemma audio_chunks_ok:
  "audio_chunks io cap n pcm tot t = Some (SD_OK, pcm', tot', t') \<Longrightarrow>
     \<exists>fs. length fs = n \<and> incoming t = encode_all SD_KIND_BINARY fs @ incoming t' \<and>
       (\<forall>f\<in>set fs. 4 \<le> length f \<and> length f \<le> 4 + SD_CHUNK_SIZE) \<and>
       tot' = tot + sum_list (map (\<lambda>f. length f - 4) fs)"
proof (induction n arbitrary: pcm tot t)
  case 0
  then show ?case by simp
next
  case (Suc n)
  obtain e k f t1 where r: "sd_frame_recv io t (4 + SD_CHUNK_SIZE) = (e, k, f, t1)"
    by (cases "sd_frame_recv io t (4 + SD_CHUNK_SIZE)")
  with Suc.prems obtain pcm1 where ok: "e = SD_OK" "k = SD_KIND_BINARY" "4 \<le> length f"
      "audio_chunks io cap n pcm1 (tot + (length f - 4)) t1 = Some (SD_OK, pcm', tot', t')"
    by (auto simp: Let_def split: if_splits option.splits)
  from Suc.IH [OF ok(4)] obtain fs where "length fs = n"
      "incoming t1 = encode_all SD_KIND_BINARY fs @ incoming t'"
      "\<forall>f\<in>set fs. 4 \<le> length f \<and> length f \<le> 4 + SD_CHUNK_SIZE"
      "tot' = tot + (length f - 4) + sum_list (map (\<lambda>f. length f - 4) fs)" by blast
  then show ?case
    using frame_recv_ok [of t _ k f t1] r ok(1-3) by (intro exI [of _ "f # fs"]) auto
qed

lemma audio_body_safe:
  assumes "cap \<le> length p" and "cap < 2 ^ 64"
  shows "\<exists>e p' t'. sd_msg_recv_audio_body io alloc t chunks sz sha (Some p) cap = Some (e, Some p', t') \<and>
    length p' = length p \<and> sent t' = sent t \<and>
    (e = SD_OK \<longrightarrow> sha = Some (sd_sha256_hex (take (unat sz) p') (unat sz)) \<and> unat sz \<le> cap \<and>
      (\<exists>fs m. length fs = unat chunks \<and> sum_list (map (\<lambda>f. length f - 4) fs) = unat sz \<and>
        incoming t = encode_all SD_KIND_BINARY fs @ encode_frame SD_KIND_JSON m @ incoming t'))"
proof (cases "t_null io t \<or> sha = None \<or> cap < unat sz \<or> \<not> alloc")
  case True
  then show ?thesis using assms(1) by (auto simp: sd_msg_recv_audio_body_def)
next
  case go: False
  obtain e p' tot t1 where c: "audio_chunks io cap (unat chunks) (Some p) 0 t = Some (e, Some p', tot, t1)"
    and p': "length p' = length p" and s1: "sent t1 = sent t"
    using audio_chunks_safe [OF assms, of "unat chunks" 0 t] by blast
  show ?thesis
  proof (cases "e = SD_OK")
    case False
    then show ?thesis using go c p' s1 by (auto simp: sd_msg_recv_audio_body_def)
  next
    case True
    obtain e2 k m t2 where r: "sd_frame_recv io t1 (4 + SD_CHUNK_SIZE) = (e2, k, m, t2)"
      by (cases "sd_frame_recv io t1 (4 + SD_CHUNK_SIZE)")
    have s2: "sent t2 = sent t" using frame_recv_errors [OF r] s1 by simp
    have h: "pcm_hash (Some p') (unat sz) = Some (sd_sha256_hex (take (unat sz) p') (unat sz))"
      using go p' assms(1) by (intro pcm_hash_take) simp
    show ?thesis
    proof (cases "e2 = SD_OK \<and> k = SD_KIND_JSON \<and> tot = unat sz \<and>
        sha = Some (sd_sha256_hex (take (unat sz) p') (unat sz))")
      case False
      then have "\<exists>e. e \<noteq> SD_OK \<and>
          sd_msg_recv_audio_body io alloc t chunks sz sha (Some p) cap = Some (e, Some p', t2)"
        using go c r h True by (auto simp: sd_msg_recv_audio_body_def)
      then show ?thesis using p' s2 by auto
    next
      case good: True
      then have "sd_msg_recv_audio_body io alloc t chunks sz sha (Some p) cap = Some (SD_OK, Some p', t2)"
        using go c r h True by (auto simp: sd_msg_recv_audio_body_def)
      moreover have "\<exists>fs m. length fs = unat chunks \<and> sum_list (map (\<lambda>f. length f - 4) fs) = unat sz \<and>
          incoming t = encode_all SD_KIND_BINARY fs @ encode_frame SD_KIND_JSON m @ incoming t2"
        using audio_chunks_ok [OF c [unfolded True]] frame_recv_ok [of t1 _ k m t2] r good by auto
      ultimately show ?thesis using p' s2 good go by auto
    qed
  qed
qed

lemma audio_body_data:
  assumes "\<not> t_null io t"
    and "incoming t = encode_all SD_KIND_BINARY (numbered 0 (chunked data)) @ encode_frame SD_KIND_JSON m @ rest"
    and "length m \<le> 4 + SD_CHUNK_SIZE" and "length data < 2 ^ 32" and "length data \<le> length p"
    and "length p < 2 ^ 64"
  shows "\<exists>t'. sd_msg_recv_audio_body io True t (of_nat (length (chunked data))) (of_nat (length data))
      (Some (sd_sha256_hex data (length data))) (Some p) (length p) =
      Some (SD_OK, Some (data @ drop (length data) p), t') \<and> incoming t' = rest"
proof -
  have n: "length (chunked data) < 2 ^ 32"
    using assms(4) by (auto simp: length_chunked chunk_count_def SD_CHUNK_SIZE_def Let_def)
  have u: "unat (of_nat (length (chunked data)) :: u32) = length (chunked data)"
    "unat (of_nat (length data) :: u32) = length data"
    using n assms(4) by (simp_all add: unsigned_of_nat take_bit_nat_eq_self)
  obtain t1 where c: "audio_chunks io (length p) (length (chunked data)) (Some p) 0 t =
      Some (SD_OK, Some (data @ drop (length data) p), length data, t1)"
    and t1: "\<not> t_null io t1" "incoming t1 = encode_frame SD_KIND_JSON m @ rest"
    using audio_chunks_data [OF assms(1,2), of p "length p" 0] n assms(5,6) by auto
  have "length m \<le> SD_MAX_FRAME_BYTES" using assms(3) chunk_frame_max by linarith
  from frame_recv_encoded [OF t1 kind_ok_simps(1) this assms(3)] obtain t2 where
    r: "sd_frame_recv io t1 (4 + SD_CHUNK_SIZE) = (SD_OK, SD_KIND_JSON, m, t2)" "incoming t2 = rest"
    by blast
  have "pcm_hash (Some (data @ drop (length data) p)) (length data) = Some (sd_sha256_hex data (length data))"
    using pcm_hash_take [of "length data" "data @ drop (length data) p"] by simp
  then show ?thesis
    using assms(1,5) u c r by (simp add: sd_msg_recv_audio_body_def)
qed

end

section \<open>Control messages of the phone\<close>

definition message_payload :: "(string \<times> json_value) list \<Rightarrow> byte list" where
  "message_payload fs = bytes_of_string (json_object fs)"

definition ascii :: "string \<Rightarrow> bool" where
  "ascii s \<longleftrightarrow> list_all (\<lambda>c. 0 < code c \<and> code c < 0x80) s"

lemma ascii_codes: "ascii s \<Longrightarrow> (\<forall>n\<in>set (codes s). scalar n) \<and> utf8_all (codes s) = s \<and> nul_free s"
proof -
  assume s: "ascii s"
  then have "\<forall>n\<in>set (codes s). scalar n"
    by (fastforce simp: ascii_def scalar_def code_def list_all_iff)
  moreover have "utf8_all (codes s) = s"
    using s by (intro utf8_codes) (auto simp: ascii_def list_all_iff)
  moreover have "nul_free s"
    using s by (intro list_all_nul_free [of "\<lambda>c. 0 < code c \<and> code c < 0x80"]) (auto simp: ascii_def code_def)
  ultimately show ?thesis by blast
qed

text \<open>What the classifier does with each verdict of the frame layer.\<close>

definition has_type :: "char list \<Rightarrow> byte list \<Rightarrow> bool" where
  "has_type type0 p \<longleftrightarrow>
     fst (sd_json_get_string (Some (cstr (string_of_bytes p @ [NUL]))) (Some ''type'') (Some type0)) = SD_OK"

lemma key_ok_fields: "key_ok ''type''" "key_ok ''text''" "key_ok ''content''" "key_ok ''message''"
  by (simp_all add: key_ok_def name_char_def is_digit_def code_def)

lemma get_type:
  assumes "field ''type'' fs = Some (JStr (codes name))" and "ascii name" and "length name < length type0"
  shows "\<exists>ty. sd_json_get_string (Some (json_object fs)) (Some ''type'') (Some type0) = (SD_OK, Some ty) \<and>
    cstr ty = name"
proof -
  have "type0 \<noteq> []" using assms(3) by auto
  then show ?thesis
    using get_string_object [OF key_ok_fields(1) assms(1), of type0] ascii_codes [OF assms(2)]
      fit_all [of "codes name" "length type0"] assms(3) by (simp add: Let_def)
qed

lemma classify_audio: "fst (classify name) = SD_MSG_AUDIO_BEGIN \<longleftrightarrow> name = ''audio_begin''"
  by (simp add: classify_def)

lemma classify_key: "snd (classify name) = Some k \<Longrightarrow> key_ok k \<and> fst (classify name) \<noteq> SD_MSG_AUDIO_BEGIN"
  using key_ok_fields by (auto simp: classify_def split: if_splits)

context transport_hal
begin

lemma recv_message:
  assumes "\<not> t_null io t" and "incoming t = encode_frame SD_KIND_JSON (message_payload fs) @ rest"
    and "\<forall>f\<in>set fs. nul_free (fst f)" and "length (json_object fs) < 8192"
    and "field ''type'' fs = Some (JStr (codes name))" and "ascii name" and "length name < length type0"
    and "buf \<noteq> []"
  shows "\<exists>t'. sd_msg_recv io True type0 t (Some buf) =
      (SD_OK, Some (fst (classify name)),
       (if name = ''audio_begin'' then Some (snprintf_str (buf[0 := NUL]) (json_object fs))
        else case snd (classify name) of
          None \<Rightarrow> Some (buf[0 := NUL])
        | Some k \<Rightarrow> snd (sd_json_get_string (Some (json_object fs)) (Some k) (Some (buf[0 := NUL])))), t') \<and>
    \<not> t_null io t' \<and> incoming t' = rest \<and> sent t' = sent t"
proof -
  have l: "length (message_payload fs) \<le> 8192 - 1" "length (message_payload fs) \<le> SD_MAX_FRAME_BYTES"
    using assms(4) by (simp_all add: message_payload_def SD_MAX_FRAME_BYTES_def)
  from frame_recv_encoded [OF assms(1,2) kind_ok_simps(1) l(2,1)] obtain t' where
    r: "sd_frame_recv io t (8192 - 1) = (SD_OK, SD_KIND_JSON, message_payload fs, t')"
      "\<not> t_null io t'" "incoming t' = rest" "sent t' = sent t" by blast
  have j: "string_of_bytes (message_payload fs) = json_object fs" "nul_free (json_object fs)"
    using nul_free_json_object [OF assms(3)] by (simp_all add: message_payload_def)
  obtain ty where g: "sd_json_get_string (Some (json_object fs)) (Some ''type'') (Some type0) = (SD_OK, Some ty)"
      "cstr ty = name"
    using get_type [OF assms(5-7)] by blast
  obtain mt k where c: "classify name = (mt, k)" "mt = SD_MSG_AUDIO_BEGIN \<longleftrightarrow> name = ''audio_begin''"
    using classify_audio [of name] by (cases "classify name") simp
  have "sd_msg_recv io True type0 t (Some buf) =
      (SD_OK, Some mt, (if mt = SD_MSG_AUDIO_BEGIN then Some (snprintf_str (buf[0 := NUL]) (json_object fs))
        else case k of None \<Rightarrow> Some (buf[0 := NUL])
        | Some key \<Rightarrow> snd (sd_json_get_string (Some (json_object fs)) (Some key) (Some (buf[0 := NUL])))), t')"
    using r(1) j g c(1) assms(8) by (simp add: sd_msg_recv_def clear_text_def Let_def cong: option.case_cong)
  then show ?thesis using r c by (intro exI [of _ t']) simp
qed

lemma recv_ok_frame:
  assumes "sd_frame_recv io t 8191 = (SD_OK, k, p, t1)" and "buf \<noteq> []"
  shows "if k = SD_KIND_JSON \<and> has_type type0 p
    then \<exists>m b. sd_msg_recv io True type0 t (Some buf) = (SD_OK, Some m, Some b, t1) \<and> length b = length buf
    else sd_msg_recv io True type0 t (Some buf) = (SD_ERR_IO, None, Some (buf[0 := NUL]), t1)"
proof (cases "k = SD_KIND_JSON")
  case True
  let ?json = "cstr (string_of_bytes p @ [NUL])" and ?b0 = "buf[0 := NUL]"
  obtain e ty where g: "sd_json_get_string (Some ?json) (Some ''type'') (Some type0) = (e, ty)"
    by (cases "sd_json_get_string (Some ?json) (Some ''type'') (Some type0)")
  obtain m k' where c: "classify (cstr (the ty)) = (m, k')" by (cases "classify (cstr (the ty))")
  show ?thesis
  proof (cases "e = SD_OK")
    case ok: True
    let ?text = "if m = SD_MSG_AUDIO_BEGIN then Some (snprintf_str ?b0 ?json)
      else case k' of None \<Rightarrow> Some ?b0 | Some key \<Rightarrow> snd (sd_json_get_string (Some ?json) (Some key) (Some ?b0))"
    have "sd_msg_recv io True type0 t (Some buf) = (SD_OK, Some m, ?text, t1)"
      using assms True g ok c by (simp add: sd_msg_recv_def clear_text_def Let_def cong: option.case_cong)
    moreover have "\<exists>b. ?text = Some b \<and> length b = length buf"
    proof (cases "m = SD_MSG_AUDIO_BEGIN \<or> k' = None")
      case True
      then show ?thesis
        using cstr_snprintf_str [of ?json ?b0] assms(2) by (auto simp del: cstr_append_NUL)
    next
      case False
      then obtain key where "k' = Some key" by auto
      then show ?thesis
        using get_string_length [of "Some ?json" "Some key" ?b0] False by (metis length_list_update prod.collapse option.case(2))
    qed
    ultimately show ?thesis using True g ok by (auto simp: has_type_def)
  next
    case False
    then show ?thesis
      using assms True g by (simp add: sd_msg_recv_def clear_text_def has_type_def Let_def)
  qed
next
  case False
  then show ?thesis using assms by (simp add: sd_msg_recv_def clear_text_def Let_def)
qed

lemma recv_err_frame:
  "sd_frame_recv io t 8191 = (e, k, p, t1) \<Longrightarrow> e \<noteq> SD_OK \<Longrightarrow>
     sd_msg_recv io True type0 t (Some buf) = (e, None, Some (buf[0 := NUL]), t1)"
  by (simp add: sd_msg_recv_def clear_text_def Let_def)

end

text \<open>
  A stream whose control messages use only the escapes of JSON in the two texts that the device
  application reads; everything else about it is arbitrary, also the frames behind a binary one.
\<close>

function well_escaped :: "byte list \<Rightarrow> bool" where
  "well_escaped s =
     (case parse_frame 8191 s of
        Frame k p rest \<Rightarrow>
          k = SD_KIND_JSON \<longrightarrow>
            list_all (escapes_ok (cstr (string_of_bytes p @ [NUL]))) [''text'', ''message''] \<and> well_escaped rest
      | _ \<Rightarrow> True)"
  by pat_completeness auto
termination
  by (relation "measure length") (auto dest!: parse_frame_sound)

declare well_escaped.simps [simp del]

context transport_hal
begin

lemma recv_escaped:
  assumes "sd_msg_recv io al type0 t (Some buf) = (SD_OK, Some m, Some b, t')" and "buf \<noteq> []"
    and "well_escaped (incoming t)"
  shows "well_escaped (incoming t') \<and> (m = SD_MSG_AI_RESPONSE \<or> m = SD_MSG_ERROR \<longrightarrow> terminated b)"
proof -
  obtain e k p t1 where f: "sd_frame_recv io t 8191 = (e, k, p, t1)" by (cases "sd_frame_recv io t 8191")
  have ok: "al" "e = SD_OK" "k = SD_KIND_JSON" "t1 = t'"
    using assms(1) f by (auto simp: sd_msg_recv_def Let_def split: if_splits prod.splits)
  note fr = frame_recv_ok [OF f [unfolded ok(2)]]
  let ?j = "cstr (string_of_bytes p @ [NUL])" and ?b = "buf[0 := NUL]"
  have "parse_frame 8191 (incoming t) = Frame SD_KIND_JSON p (incoming t')"
    using fr ok parse_encode_frame [of k p 8191 "incoming t'"] by (simp add: SD_MAX_FRAME_BYTES_def)
  then have w: "escapes_ok ?j ''text''" "escapes_ok ?j ''message''" "well_escaped (incoming t')"
    using assms(3) by (simp_all add: well_escaped.simps [of "incoming t"])
  have b: "?b \<noteq> []" "terminated ?b" using assms(2) by (auto simp: terminated_def set_update_memI)
  obtain e1 ty where g: "sd_json_get_string (Some ?j) (Some ''type'') (Some type0) = (e1, ty)"
    by (cases "sd_json_get_string (Some ?j) (Some ''type'') (Some type0)")
  obtain key where c: "classify (cstr (the ty)) = (m, key)"
    using assms(1) f ok g by (auto simp: sd_msg_recv_def Let_def split: if_splits prod.splits)
  have "terminated b" if m: "m = SD_MSG_AI_RESPONSE \<or> m = SD_MSG_ERROR"
  proof -
    have key: "key = Some ''text'' \<or> key = Some ''message''" "m \<noteq> SD_MSG_AUDIO_BEGIN"
      using c m by (auto simp: classify_def split: if_splits)
    then have "\<exists>k. (k = ''text'' \<or> k = ''message'') \<and> snd (sd_json_get_string (Some ?j) (Some k) (Some ?b)) = Some b"
      using assms(1) f ok g c b by (auto simp: sd_msg_recv_def clear_text_def Let_def split: if_splits)
    then show ?thesis using get_string_escapes [OF _ b(2)] w by (metis option.inject prod.collapse)
  qed
  then show ?thesis using w by blast
qed

end

text \<open>
  A text buffer that ends in NUL before the call stays terminated: this is what clearing the
  buffer would buy.
\<close>

lemma recv_terminated:
  assumes "sd_msg_recv io al type0 t (Some buf) = (e, ty, out, t')" and "buf \<noteq> []" "last buf = NUL"
  shows "\<exists>b. out = Some b \<and> terminated b"
proof -
  let ?b = "buf[0 := NUL]"
  have b: "?b \<noteq> []" "last ?b = NUL" "terminated ?b"
    using assms(2,3) by (auto simp: last_list_update terminated_def set_update_memI)
  have g: "\<exists>b. snd (sd_json_get_string json key (Some ?b)) = Some b \<and> terminated b" for json key
    using get_string_last [OF _ b(1,2), of json key] by (metis prod.collapse)
  have "terminated (snprintf_str ?b w)" for w using b(1) by (simp add: snprintf_str_def terminated_def)
  then show ?thesis
    using assms(1) b g
    by (auto simp: sd_msg_recv_def clear_text_def Let_def split: if_splits prod.splits option.splits)
qed

section \<open>Properties over TCP\<close>

text \<open>
  C17: an image transfer that returns \<open>SD_OK\<close> has written exactly its specification: a begin
  message with the size, the number of chunks and the SHA-256 of the data, the data in order in
  chunks of at most 4096 bytes behind consecutive sequence numbers (one empty chunk for no data),
  and the end message. A transfer that fails, at whatever step, has written a prefix of that.
\<close>

theorem sd_msg_send_image_wire:
  assumes "sd_msg_send_image tcp alloc (Some s) (Some i) (Mem data) (Some m) = (e, t')"
  shows "\<exists>w cs. tcp_sent t' = wire s @ w \<and>
    (if e = SD_OK then w = image_wire i data m else \<exists>j. w = take j (image_wire i data m)) \<and>
    image_wire i data m =
      encode_frame SD_KIND_JSON (bytes_of_string (image_begin_json i (length data) (length cs)
        (sd_sha256_hex data (length data)) m)) @
      encode_all SD_KIND_BINARY (numbered 0 cs) @
      encode_frame SD_KIND_JSON (bytes_of_string (image_end_json i)) \<and>
    concat cs = data \<and> cs \<noteq> [] \<and> (\<forall>c\<in>set cs. length c \<le> SD_CHUNK_SIZE)"
proof -
  have "\<exists>w. tcp_sent t' = wire s @ w \<and>
      (if e = SD_OK then w = image_wire i data m else \<exists>j. w = take j (image_wire i data m))"
    using tcp.send_image_ok [of alloc "Some s" "Some i" data "Some m" t']
      tcp.send_image_err [OF assms] assms by auto
  moreover have "chunked data \<noteq> []" by (subst chunked.simps) simp
  moreover have "concat (chunked data) = data \<and> (\<forall>c\<in>set (chunked data). length c \<le> SD_CHUNK_SIZE)"
    using concat_chunked chunked_bound by blast
  ultimately show ?thesis
    unfolding image_wire_def Let_def by blast
qed

text \<open>
  C12: memory safety and meaning of \<open>SD_OK\<close> for the audio receiver. With a buffer of at least the
  stated capacity, no byte stream of the peer makes it write or read outside the buffer, whatever the
  sequence numbers, chunk lengths and order of frames; when it returns \<open>SD_OK\<close>, exactly the announced number
  of chunks came, their lengths add up to the size, and the stored bytes have the announced hash.
\<close>

theorem sd_msg_recv_audio_body_safe:
  assumes "cap \<le> length p" and "cap < 2 ^ 64"
  shows "\<exists>e p' t'. sd_msg_recv_audio_body tcp alloc t chunks sz sha (Some p) cap = Some (e, Some p', t') \<and>
    length p' = length p \<and>
    (e = SD_OK \<longrightarrow> sha = Some (sd_sha256_hex (take (unat sz) p') (unat sz)) \<and> unat sz \<le> cap \<and>
      (\<exists>fs m. length fs = unat chunks \<and> sum_list (map (\<lambda>f. length f - 4) fs) = unat sz \<and>
        tcp_incoming t = encode_all SD_KIND_BINARY fs @ encode_frame SD_KIND_JSON m @ tcp_incoming t'))"
  using tcp.audio_body_safe [OF assms, of alloc t chunks sz sha] by blast

text \<open>
  C13: an audio body sent the way the phone sends it (numbered chunks of the data and a closing control frame)
  is reassembled: the buffer begins with the data, its remaining bytes keep their values, and the stream is left
  behind the closing frame.
\<close>

theorem sd_msg_recv_audio_body_delivers:
  assumes "stream (rx s) = encode_all SD_KIND_BINARY (numbered 0 (chunked data)) @
      encode_frame SD_KIND_JSON m @ rest"
    and "length m \<le> 4 + SD_CHUNK_SIZE" and "length data < 2 ^ 32" and "length data \<le> length p"
    and "length p < 2 ^ 64"
  shows "\<exists>t'. sd_msg_recv_audio_body tcp True (Some s) (of_nat (length (chunked data))) (of_nat (length data))
      (Some (sd_sha256_hex data (length data))) (Some p) (length p) =
      Some (SD_OK, Some (data @ drop (length data) p), t') \<and> tcp_incoming t' = rest"
  using tcp.audio_body_data [of "Some s" data m rest p] assms by simp

text \<open>
  C19: a text message printed by the phone (\<open>ai_response\<close>, \<open>play_audio\<close>, \<open>error\<close>) is classified by its
  type and its text is handed over as terminated UTF-8, cut to the code points that fit the caller's
  buffer; the stream continues behind the frame.
\<close>

theorem sd_msg_recv_text:
  assumes "stream (rx s) = encode_frame SD_KIND_JSON (message_payload fs) @ rest"
    and "\<forall>f\<in>set fs. nul_free (fst f)" and "length (json_object fs) < 8192"
    and "field ''type'' fs = Some (JStr (codes name))"
    and "(name, mtype, k) \<in> {(''ai_response'', SD_MSG_AI_RESPONSE, ''text''),
      (''play_audio'', SD_MSG_PLAY_AUDIO, ''content''), (''error'', SD_MSG_ERROR, ''message'')}"
    and "field k fs = Some (JStr v)" and "\<forall>n\<in>set v. scalar n"
    and "length type0 = 32" and "buf \<noteq> []"
  shows "\<exists>s' w. sd_msg_recv tcp True type0 (Some s) (Some buf) =
      (SD_OK, Some mtype, Some (utf8_all w @ NUL # drop (Suc (length (utf8_all w))) buf), Some s') \<and>
    w = fit (length buf) v \<and> stream (rx s') = rest"
proof -
  have c: "classify name = (mtype, Some k)" "name \<noteq> ''audio_begin''"
    using assms(5) by (auto simp: classify_def)
  have n: "ascii name" "length name < length type0"
    using assms(5,8) by (auto simp: ascii_def code_def)
  let ?w = "fit (length buf) v"
  have "sd_json_get_string (Some (json_object fs)) (Some k) (Some (buf[0 := NUL])) =
      (SD_OK, Some (utf8_all ?w @ NUL # drop (Suc (length (utf8_all ?w))) (buf[0 := NUL])))"
    using get_string_object [OF _ assms(6,7), of "buf[0 := NUL]"] classify_key [of name k] c assms(9)
    by (simp add: Let_def)
  moreover have "drop (Suc (length (utf8_all ?w))) (buf[0 := NUL]) = drop (Suc (length (utf8_all ?w))) buf"
    by (simp add: drop_update_cancel)
  ultimately show ?thesis
    using tcp.recv_message [of "Some s" fs rest name type0 buf] assms(1-4,9) n c
    by (auto simp: tcp_state)
qed

text \<open>
  The \<open>audio_begin\<close> message is handed back raw: the text buffer holds the object itself (cut
  to the buffer), from which the numeric fields can be read.
\<close>

theorem sd_msg_recv_audio_begin:
  assumes "stream (rx s) = encode_frame SD_KIND_JSON (message_payload fs) @ rest"
    and "\<forall>f\<in>set fs. nul_free (fst f)" and "length (json_object fs) < 8192"
    and "field ''type'' fs = Some (JStr (codes ''audio_begin''))"
    and "length type0 = 32" and "buf \<noteq> []"
  shows "\<exists>s' text. sd_msg_recv tcp True type0 (Some s) (Some buf) = (SD_OK, Some SD_MSG_AUDIO_BEGIN, Some text, Some s') \<and>
    cstr text = take (length buf - 1) (json_object fs) \<and> length text = length buf \<and> stream (rx s') = rest"
proof -
  have "cstr (snprintf_str (buf[0 := NUL]) (json_object fs)) = take (length buf - 1) (json_object fs) \<and>
      length (snprintf_str (buf[0 := NUL]) (json_object fs)) = length buf"
    using cstr_snprintf_str [OF nul_free_json_object [OF assms(2)], of "buf[0 := NUL]"] assms(6) by simp
  moreover have "ascii ''audio_begin''" "classify ''audio_begin'' = (SD_MSG_AUDIO_BEGIN, None)"
    by (simp_all add: ascii_def code_def classify_def)
  ultimately show ?thesis
    using tcp.recv_message [of "Some s" fs rest "''audio_begin''" type0 buf] assms
    by (auto simp: tcp_state)
qed


section \<open>Witnesses\<close>

lemma key_ok_size: "key_ok ''size''" "key_ok ''chunks''"
  by (simp_all add: key_ok_def name_char_def is_digit_def code_def)

theorem sd_msg_recv_audio_body_safe_witness:
  "\<exists>e p' t'. sd_msg_recv_audio_body tcp True (Some \<lparr>rx = [Rx_data [0x42, 0, 0, 0, 5, 0, 0x10, 0, 0, 7]], tx = [], wire = []\<rparr>)
      1 1 (Some ''00'') (Some [0, 0]) (length [0, 0::byte]) = Some (e, Some p', t') \<and>
    length p' = length [0, 0::byte] \<and>
    (e = SD_OK \<longrightarrow> Some ''00'' = Some (sd_sha256_hex (take (unat (1::u32)) p') (unat (1::u32))) \<and>
      unat (1::u32) \<le> length [0, 0::byte] \<and>
      (\<exists>fs m. length fs = unat (1::u32) \<and> sum_list (map (\<lambda>f. length f - 4) fs) = unat (1::u32) \<and>
        tcp_incoming (Some \<lparr>rx = [Rx_data [0x42, 0, 0, 0, 5, 0, 0x10, 0, 0, 7]], tx = [], wire = []\<rparr>) =
          encode_all SD_KIND_BINARY fs @ encode_frame SD_KIND_JSON m @ tcp_incoming t'))"
  by (rule sd_msg_recv_audio_body_safe) simp_all

theorem sd_msg_recv_audio_body_delivers_witness:
  "\<exists>t'. sd_msg_recv_audio_body tcp True
      (Some \<lparr>rx = [Rx_data [0x42, 0, 0, 0, 6, 0, 0], Rx_data [0, 0, 7, 9, 0x4A, 0, 0, 0, 1, 0x7B, 1]], tx = [], wire = []\<rparr>)
      (of_nat (length (chunked [7, 9]))) (of_nat (length [7, 9::byte])) (Some (sd_sha256_hex [7, 9] (length [7, 9::byte])))
      (Some [1, 2, 3]) (length [1, 2, 3::byte]) =
      Some (SD_OK, Some ([7, 9] @ drop (length [7, 9::byte]) [1, 2, 3]), t') \<and> tcp_incoming t' = [1]"
proof (rule sd_msg_recv_audio_body_delivers)
  have "chunked [7, 9] = [[7, 9]]" by (subst chunked.simps) (simp add: SD_CHUNK_SIZE_def)
  then show "stream (rx \<lparr>rx = [Rx_data [0x42, 0, 0, 0, 6, 0, 0], Rx_data [0, 0, 7, 9, 0x4A, 0, 0, 0, 1, 0x7B, 1]], tx = [], wire = []\<rparr>) =
      encode_all SD_KIND_BINARY (numbered 0 (chunked [7, 9])) @ encode_frame SD_KIND_JSON [0x7B] @ [1]"
    by (simp add: numbered_Cons encode_frame_def be32_small SD_KIND_BINARY_def SD_KIND_JSON_def)
qed (simp_all add: SD_CHUNK_SIZE_def)

definition ai_message :: "nat list \<Rightarrow> sock" where
  "ai_message v = \<lparr>rx = [Rx_data (encode_frame SD_KIND_JSON (message_payload (ai_fields v)))], tx = [], wire = []\<rparr>"

lemma ai_message_stream: "stream (rx (ai_message v)) = encode_frame SD_KIND_JSON (message_payload (ai_fields v)) @ []"
  by (simp add: ai_message_def encode_frame_def)

theorem sd_msg_recv_text_witness:
  "\<exists>s' w. sd_msg_recv tcp True (replicate 32 NUL) (Some (ai_message [0x4F, 0x4B])) (Some (replicate 8 NUL)) =
      (SD_OK, Some SD_MSG_AI_RESPONSE, Some (utf8_all w @ NUL # drop (Suc (length (utf8_all w))) (replicate 8 NUL)), Some s') \<and>
    w = fit (length (replicate 8 NUL)) [0x4F, 0x4B] \<and> stream (rx s') = []"
proof (rule sd_msg_recv_text [OF ai_message_stream, of _ "''ai_response''" _ "''text''"])
  show "length (json_object (ai_fields [0x4F, 0x4B])) < 8192" by code_simp
qed (simp_all add: ai_fields_def suffix_Cons quiet_def scalar_def key_ok_fields)

theorem sd_msg_recv_audio_begin_witness:
  "\<exists>s' text. sd_msg_recv tcp True (replicate 32 NUL)
      (Some \<lparr>rx = [Rx_data (encode_frame SD_KIND_JSON (message_payload [(''type'', JStr (codes ''audio_begin''))]))], tx = [], wire = []\<rparr>)
      (Some (replicate 8 NUL)) = (SD_OK, Some SD_MSG_AUDIO_BEGIN, Some text, Some s') \<and>
    cstr text = take (length (replicate 8 NUL) - 1) (json_object [(''type'', JStr (codes ''audio_begin''))]) \<and>
    length text = length (replicate 8 NUL) \<and> stream (rx s') = []"
proof (rule sd_msg_recv_audio_begin)
  show "length (json_object [(''type'', JStr (codes ''audio_begin''))]) < 8192" by code_simp
qed (simp_all add: encode_frame_def)


theorem sd_msg_send_image_wire_witness:
  "\<exists>w cs. tcp_sent (Some \<lparr>rx = [], tx = [], wire = [1::byte]\<rparr>) = wire \<lparr>rx = [], tx = [Tx_fail], wire = [1]\<rparr> @ w \<and>
    (if SD_ERR_IO = SD_OK then w = image_wire ''a'' [] ''b'' else \<exists>j. w = take j (image_wire ''a'' [] ''b'')) \<and>
    image_wire ''a'' [] ''b'' =
      encode_frame SD_KIND_JSON (bytes_of_string (image_begin_json ''a'' (length ([]::byte list)) (length cs)
        (sd_sha256_hex [] (length ([]::byte list))) ''b'')) @
      encode_all SD_KIND_BINARY (numbered 0 cs) @
      encode_frame SD_KIND_JSON (bytes_of_string (image_end_json ''a'')) \<and>
    concat cs = [] \<and> cs \<noteq> [] \<and> (\<forall>c\<in>set cs. length c \<le> SD_CHUNK_SIZE)"
proof (rule sd_msg_send_image_wire)
  let ?b = "image_begin_json ''a'' 0 1 (sd_sha256_hex [] 0) ''b''"
  have "length ?b = 150" by (simp add: image_begin_json_def decimal.simps)
  then show "sd_msg_send_image tcp True (Some \<lparr>rx = [], tx = [Tx_fail], wire = [1]\<rparr>) (Some ''a'') (Mem []) (Some ''b'') =
      (SD_ERR_IO, Some \<lparr>rx = [], tx = [], wire = [1]\<rparr>)"
    by (simp add: sd_msg_send_image_def chunk_count_def SD_CHUNK_SIZE_def sd_frame_send_def SD_MAX_FRAME_BYTES_def
        sd_transport_send_def send_loop.simps)
qed

section \<open>A reply whose text is not terminated\<close>

text \<open>
  An escape that JSON does not define makes \<open>sd_json_get_string\<close> give up in the middle of the
  text; \<open>sd_msg_recv\<close> ignores that error.
\<close>

definition bad_escape_json :: string where
  "bad_escape_json = ''{\"text\":\"abcd'' @ BACKSLASH # ''x\",\"type\":\"ai_response\"}''"

definition bad_escape_sock :: sock where
  "bad_escape_sock = \<lparr>rx = [Rx_data (encode_frame SD_KIND_JSON (bytes_of_string bad_escape_json))], tx = [], wire = []\<rparr>"

lemma bad_escape_type:
  "sd_json_get_string (Some bad_escape_json) (Some ''type'') (Some (replicate 32 NUL)) =
     (SD_OK, Some (''ai_response'' @ replicate 21 NUL))"
  by code_simp

lemma bad_escape_text:
  "sd_json_get_string (Some bad_escape_json) (Some ''text'') (Some (NUL # replicate 4 (CHR ''?''))) =
     (SD_ERR_INVALID, Some ''abcd?'')"
  by code_simp

text \<open>
  The contract \<open>text_out is NUL-terminated\<close> fails for a reply with an undefined escape: the call
  returns \<open>SD_OK\<close> and the buffer holds no NUL, so the caller's loops over the text leave it.
\<close>

theorem sd_msg_recv_unterminated:
  "\<exists>text s'. sd_msg_recv tcp True (replicate 32 NUL) (Some bad_escape_sock) (Some (replicate 5 (CHR ''?''))) =
     (SD_OK, Some SD_MSG_AI_RESPONSE, Some text, s') \<and> \<not> terminated text"
proof -
  let ?p = "bytes_of_string bad_escape_json"
  have l: "length ?p \<le> 8191" "length ?p \<le> SD_MAX_FRAME_BYTES"
    by (simp_all add: bad_escape_json_def SD_MAX_FRAME_BYTES_def)
  have "stream (rx bad_escape_sock) = encode_frame SD_KIND_JSON ?p @ []"
    by (simp add: bad_escape_sock_def encode_frame_def)
  then obtain s' where r: "sd_frame_recv tcp (Some bad_escape_sock) 8191 = (SD_OK, SD_KIND_JSON, ?p, s')"
    using tcp.frame_recv_encoded [of "Some bad_escape_sock" SD_KIND_JSON ?p "[]" 8191] l by auto
  have "nul_free bad_escape_json" by (simp add: bad_escape_json_def)
  moreover have "cstr (''ai_response'' @ replicate 21 NUL) = ''ai_response''"
    by (simp add: cstr_def numeral_eq_Suc)
  moreover have "(replicate 5 (CHR ''?''))[0 := NUL] = NUL # replicate 4 (CHR ''?'')"
    by (simp add: numeral_eq_Suc)
  ultimately show ?thesis
    using r bad_escape_type bad_escape_text
    by (simp add: sd_msg_recv_def clear_text_def classify_def Let_def terminated_def)
qed
end
