(* ===== verification/Device.thy ===== *)
theory Device
  imports Hal Messages
begin

text \<open>
  The device application (\<open>src/app/device.c\<close>): initialisation, the capture cycle, the audio
  downlink and the uplink turn, over any peripherals and any transport that obey their
  contracts. The environment supplies the clock, the answers of \<open>malloc\<close> and the contents of
  uninitialised memory. Each operation also returns the calls of the logger it makes.
\<close>

section \<open>State and environment\<close>

record device_status =
  image_bytes :: nat
  image_width :: "16 word"
  image_height :: "16 word"
  battery_percent :: "8 word"

record uplink_metrics =
  capture_ms :: u32
  upload_ms :: u32
  response_ms :: u32
  total_ms :: u32
  sent_bytes :: nat
  response_bytes :: nat

definition zero_metrics :: uplink_metrics where
  "zero_metrics = \<lparr>capture_ms = 0, upload_ms = 0, response_ms = 0, total_ms = 0, sent_bytes = 0,
                   response_bytes = 0\<rparr>"

text \<open>
  \<open>clock k\<close> is the time the k-th reading finds, as seconds and nanoseconds. The buffers
  indexed by \<open>i\<close> are those of the i-th turn of the receive loop; \<open>heap n\<close> is what
  \<open>malloc(n)\<close> hands out; \<open>log_max\<close> is the level up to which the logger prints.
\<close>

record env =
  clock :: "nat \<Rightarrow> nat \<times> nat"
  al_image :: bool
  al_recv :: "nat \<Rightarrow> bool"
  type_buf :: "nat \<Rightarrow> char list"
  text_buf :: "nat \<Rightarrow> char list"
  sha_buf :: "char list"
  al_pcm :: bool
  heap :: "nat \<Rightarrow> byte list"
  al_frame :: bool
  log_max :: sd_log_level

definition env_ok :: "env \<Rightarrow> bool" where
  "env_ok env \<longleftrightarrow> (\<forall>i. length (type_buf env i) = 32 \<and> length (text_buf env i) = 1024) \<and>
     length (sha_buf env) = 65 \<and> (\<forall>n. length (heap env n) = n)"

definition now_ms :: "nat \<times> nat \<Rightarrow> u32" where
  "now_ms ts = (case ts of (sec, nsec) \<Rightarrow> of_nat sec * 1000 + of_nat (nsec div 1000000))"

definition finalize_metrics :: "env \<Rightarrow> uplink_metrics option \<Rightarrow> u32 \<Rightarrow> u32 \<Rightarrow> uplink_metrics option" where
  "finalize_metrics env m t_start t_upload_done =
     (case m of None \<Rightarrow> None
      | Some m \<Rightarrow> (let now = now_ms (clock env 3)
                  in Some (m\<lparr>response_ms := now - t_upload_done, total_ms := now - t_start\<rparr>)))"

section \<open>The lines of the log\<close>

abbreviation dev_log :: "sd_log_level \<Rightarrow> string \<Rightarrow> log_line" where
  "dev_log level msg \<equiv> (level, ''device'', msg)"

definition failed_line :: "sd_log_level \<Rightarrow> string \<Rightarrow> sd_err \<Rightarrow> log_line" where
  "failed_line level what err = dev_log level (what @ '' failed: '' @ sd_strerror err)"

definition initialized_line :: "string \<Rightarrow> string \<Rightarrow> log_line" where
  "initialized_line camera battery =
     dev_log SD_LOG_INFO (''initialized (camera='' @ camera @ '' battery='' @ battery @ '')'')"

text \<open>No backend delivers an image without a media type; the C library prints \<open>(null)\<close> for it.\<close>

definition image_text :: "sd_image \<Rightarrow> string" where
  "image_text img =
     ''captured '' @ decimal (unat (img_width img)) @ ''x'' @ decimal (unat (img_height img)) @ '' '' @
     (case media_type img of None \<Rightarrow> ''(null)'' | Some s \<Rightarrow> s) @ '' ('' @ decimal (span_len (img_data img)) @ '' bytes)''"

definition captured_line :: "sd_image \<Rightarrow> 8 word \<Rightarrow> log_line" where
  "captured_line img percent =
     dev_log SD_LOG_INFO (image_text img @ '', battery '' @ decimal (unat percent) @ ''%'')"

definition uplink_captured_line :: "sd_image \<Rightarrow> log_line" where
  "uplink_captured_line img = dev_log SD_LOG_INFO (''uplink: '' @ image_text img)"

definition played_line :: "nat \<Rightarrow> u32 \<Rightarrow> u32 \<Rightarrow> log_line" where
  "played_line frames rate ch =
     dev_log SD_LOG_INFO (''uplink: played '' @ decimal frames @ '' audio frames ('' @ decimal (unat rate) @ '' Hz, '' @
       decimal (unat ch) @ '' ch)'')"

definition unavailable_line :: "sd_err \<Rightarrow> log_line" where
  "unavailable_line err =
     dev_log SD_LOG_WARN (''uplink: audio unavailable ('' @ sd_strerror err @ ''); discarding PCM'')"

text \<open>
  The two lines that print the text of a message with \<open>%s\<close>: the logger returns before it reads the
  argument when the level is filtered, and otherwise reads it up to its NUL.
\<close>

definition printable :: "sd_log_level \<Rightarrow> sd_log_level \<Rightarrow> char list \<Rightarrow> bool" where
  "printable lim level t \<longleftrightarrow> level_num lim < level_num level \<or> terminated t"

definition answer_line :: "string \<Rightarrow> log_line" where
  "answer_line answer = dev_log SD_LOG_INFO (''uplink: ai_response: '' @ answer)"

definition phone_error_line :: "string \<Rightarrow> log_line" where
  "phone_error_line answer = dev_log SD_LOG_ERROR (''uplink: phone error: '' @ answer)"

section \<open>Initialisation and the capture cycle\<close>

definition sd_device_init :: "'h hal_ops \<Rightarrow> 'h \<Rightarrow> sd_err \<times> 'h \<times> log_line list" where
  "sd_device_init hal h =
     (case h_camera_init hal h of (err, h1) \<Rightarrow>
        if err \<noteq> SD_OK then (err, h1, backend_log hal h h1 @ [failed_line SD_LOG_ERROR ''camera init'' err])
        else (case h_battery_init hal h1 of (err, h2) \<Rightarrow>
                if err \<noteq> SD_OK then (err, h2, backend_log hal h h2 @ [failed_line SD_LOG_ERROR ''battery init'' err])
                else (SD_OK, h2, backend_log hal h h2 @ [initialized_line (h_camera_name hal) (h_battery_name hal)])))"

definition sd_device_capture_cycle ::
    "'h hal_ops \<Rightarrow> 'h \<Rightarrow> device_status option \<Rightarrow> sd_err \<times> device_status option \<times> 'h \<times> log_line list" where
  "sd_device_capture_cycle hal h status =
     (case status of None \<Rightarrow> (SD_ERR_INVALID, None, h, [])
      | Some st \<Rightarrow>
          (case h_battery_read hal h of (err, percent) \<Rightarrow>
             if err \<noteq> SD_OK then (err, status, h, [failed_line SD_LOG_WARN ''battery read'' err])
             else (case h_capture hal h zero_image of (err, img, h1) \<Rightarrow>
               if err \<noteq> SD_OK then (err, status, h1, backend_log hal h h1 @ [failed_line SD_LOG_ERROR ''capture'' err])
               else (let st = st\<lparr>image_bytes := span_len (img_data img), image_width := img_width img,
                                image_height := img_height img, battery_percent := percent\<rparr>
                     in case h_release hal h1 img of (_, h2) \<Rightarrow>
                            (SD_OK, Some st, h2, backend_log hal h h1 @ [captured_line img percent] @ backend_log hal h1 h2)))))"

section \<open>The audio downlink\<close>

text \<open>
  \<open>None\<close> is undefined behaviour: an access outside the PCM buffer, or the division by zero
  that the 32-bit product \<open>2u * channels\<close> would give for an even multiple of \<open>2 ^ 31\<close>.
\<close>

definition play_audio_downlink ::
    "'h hal_ops \<Rightarrow> 't transport_ops \<Rightarrow> env \<Rightarrow> 't \<Rightarrow> string \<Rightarrow> 'h 
       \<Rightarrow> (sd_err \<times> 't \<times> 'h \<times> log_line list) option" where
  "play_audio_downlink hal io env t begin_json h =
     (let num = (\<lambda>k. sd_json_get_uint (Some begin_json) (Some k) (Some 0));
          sha = sd_json_get_string (Some begin_json) (Some ''sha256'') (Some (sha_buf env))
      in if fst (num ''size'') \<noteq> SD_OK \<or> fst (num ''chunks'') \<noteq> SD_OK \<or>
            fst (num ''sample_rate'') \<noteq> SD_OK \<or> fst (num ''channels'') \<noteq> SD_OK \<or> fst sha \<noteq> SD_OK
         then Some (SD_ERR_IO, t, h, [dev_log SD_LOG_ERROR ''uplink: malformed audio_begin''])
         else (let sz = the (snd (num ''size'')); chunks = the (snd (num ''chunks''));
                   sample_rate = the (snd (num ''sample_rate'')); channels = the (snd (num ''channels''))
               in if channels = 0 then Some (SD_ERR_IO, t, h, [])
                  else if \<not> al_pcm env then Some (SD_ERR_NO_MEM, t, h, [])
                  else (let pcm = heap env (if sz \<noteq> 0 then unat sz else 1)
                        in case sd_msg_recv_audio_body io (al_frame env) t chunks sz
                                  (Some (cstr (the (snd sha)))) (Some pcm) (unat sz) of
                             None \<Rightarrow> None
                           | Some (err, pcm, t) \<Rightarrow>
                               if err \<noteq> SD_OK then Some (err, t, h, [failed_line SD_LOG_ERROR ''uplink: audio body'' err])
                               else (case h_audio_init hal h sample_rate (ucast channels) of (err, h1) \<Rightarrow>
                                 if err = SD_OK then
                                   (if 2 * channels = 0 then None
                                    else (let frames = unat sz div unat (2 * channels)
                                          in case h_play hal h1 (Mem (the pcm)) frames of (err, h2) \<Rightarrow>
                                               Some (err, t, h2, backend_log hal h h2 @ [played_line frames sample_rate channels])))
                                 else Some (err, t, h1, backend_log hal h h1 @ [unavailable_line err])))))"

section \<open>The uplink turn\<close>

text \<open>
  The two loops over the text of an answer; \<open>None\<close> reads past the end of the buffer. First
  \<open>while (text[n]) n++\<close>, then the copy into the caller's buffer.
\<close>

definition text_length :: "char list \<Rightarrow> nat option" where
  "text_length t = (if terminated t then Some (length (cstr t)) else None)"

function copy_text :: "char list \<Rightarrow> char list \<Rightarrow> nat \<Rightarrow> char list option" where
  "copy_text t out i =
     (if length t \<le> i then None
      else if t ! i \<noteq> NUL \<and> i + 1 < length out then copy_text t (out[i := t ! i]) (i + 1)
      else Some (out[i := NUL]))"
  by pat_completeness auto
termination
  by (relation "measure (\<lambda>(t, out, i). length t - i)") auto

declare copy_text.simps [simp del]

text \<open>
  What the turn has at hand: the connection, the caller's two out-parameters, the peripherals, and
  the lines logged so far.
\<close>

record ('t, 'h) turn =
  conn :: 't
  response :: "char list option"
  metrics :: "uplink_metrics option"
  dev :: 'h
  turn_log :: "log_line list"

definition say :: "log_line list \<Rightarrow> ('t, 'h) turn \<Rightarrow> ('t, 'h) turn" where
  "say ls s = s\<lparr>turn_log := turn_log s @ ls\<rparr>"

definition ai_reply :: "sd_log_level \<Rightarrow> char list \<Rightarrow> ('t, 'h) turn \<Rightarrow> ('t, 'h) turn option" where
  "ai_reply lim t s =
     (if \<not> printable lim SD_LOG_INFO t then None
      else let s = say [answer_line (cstr t)] s
      in case (case metrics s of None \<Rightarrow> Some s
            | Some m \<Rightarrow> (case text_length t of None \<Rightarrow> None
                        | Some n \<Rightarrow> Some (s\<lparr>metrics := Some (m\<lparr>response_bytes := n\<rparr>)\<rparr>))) of
        None \<Rightarrow> None
      | Some s \<Rightarrow>
          (case response s of None \<Rightarrow> Some s
           | Some out \<Rightarrow>
               if out = [] then Some s
               else (case copy_text t out 0 of None \<Rightarrow> None
                     | Some out \<Rightarrow> Some (s\<lparr>response := Some out\<rparr>))))"

text \<open>
  \<open>for (;;)\<close>: the outer \<open>None\<close> is a loop that does not end, the inner one undefined behaviour.
\<close>

partial_function (option) uplink_loop ::
    "'h hal_ops \<Rightarrow> 't transport_ops \<Rightarrow> env \<Rightarrow> u32 \<Rightarrow> u32 \<Rightarrow> nat \<Rightarrow> ('t, 'h) turn
       \<Rightarrow> (sd_err \<times> ('t, 'h) turn) option option" where
  "uplink_loop hal io env t_start t_upload_done i s =
     (case sd_msg_recv io (al_recv env i) (type_buf env i) (conn s) (Some (text_buf env i)) of
        (err, ty, buf, t) \<Rightarrow>
          if err \<noteq> SD_OK then Some (Some (err, say [failed_line SD_LOG_ERROR ''uplink recv'' err] (s\<lparr>conn := t\<rparr>)))
          else (let s = s\<lparr>conn := t\<rparr>; ty = the ty; buf = the buf
                in if ty = SD_MSG_AI_RESPONSE then
                     (case ai_reply (log_max env) buf s of None \<Rightarrow> Some None
                      | Some s \<Rightarrow> uplink_loop hal io env t_start t_upload_done (Suc i) s)
                   else if ty = SD_MSG_AUDIO_BEGIN then
                     Some (case play_audio_downlink hal io env t (cstr buf) (dev s) of
                             None \<Rightarrow> None
                           | Some (err, t, h, ls) \<Rightarrow>
                               Some (err, say ls (s\<lparr>conn := t, dev := h,
                                            metrics := finalize_metrics env (metrics s) t_start t_upload_done\<rparr>)))
                   else if ty = SD_MSG_PLAY_AUDIO then
                     Some (Some (SD_OK, say [dev_log SD_LOG_INFO ''uplink: play_audio (turn complete)'']
                       (s\<lparr>metrics := finalize_metrics env (metrics s) t_start t_upload_done\<rparr>)))
                   else if ty = SD_MSG_ERROR then
                     Some (if printable (log_max env) SD_LOG_ERROR buf
                           then Some (SD_ERR_IO, say [phone_error_line (cstr buf)] s) else None)
                   else uplink_loop hal io env t_start t_upload_done (Suc i) s))"

definition sd_device_run_uplink ::
    "'h hal_ops \<Rightarrow> 't transport_ops \<Rightarrow> env \<Rightarrow> string option \<Rightarrow> ('t, 'h) turn
       \<Rightarrow> (sd_err \<times> ('t, 'h) turn) option option" where
  "sd_device_run_uplink hal io env image_id s =
     (if t_null io (conn s) \<or> image_id = None then Some (Some (SD_ERR_INVALID, s))
      else (let s = s\<lparr>response := clear_text (response s),
                      metrics := map_option (\<lambda>_. zero_metrics) (metrics s)\<rparr>;
                t_start = now_ms (clock env 0)
            in case h_capture hal (dev s) zero_image of (err, img, h) \<Rightarrow>
                 if err \<noteq> SD_OK then
                   Some (Some (err, say (backend_log hal (dev s) h @ [failed_line SD_LOG_ERROR ''uplink capture'' err]) (s\<lparr>dev := h\<rparr>)))
                 else (let t_capture_done = now_ms (clock env 1);
                           s = say (backend_log hal (dev s) h @ [uplink_captured_line img])
                                 (s\<lparr>metrics := map_option (\<lambda>m. m\<lparr>capture_ms := t_capture_done - t_start,
                                      sent_bytes := span_len (img_data img)\<rparr>) (metrics s)\<rparr>)
                       in case sd_msg_send_image io (al_image env) (conn s) image_id (img_data img) (media_type img) of
                            (err, t) \<Rightarrow>
                              (case h_release hal h img of (_, h1) \<Rightarrow>
                                 let s = say (backend_log hal h h1) (s\<lparr>conn := t, dev := h1\<rparr>)
                                 in if err \<noteq> SD_OK
                                 then Some (Some (err, say [failed_line SD_LOG_ERROR ''uplink send'' err] s))
                                 else (let t_upload_done = now_ms (clock env 2)
                                       in uplink_loop hal io env t_start t_upload_done 0
                                            (s\<lparr>metrics := map_option (\<lambda>m. m\<lparr>upload_ms := t_upload_done - t_capture_done\<rparr>)
                                                 (metrics s)\<rparr>))))))"

section \<open>The turn over any backend\<close>

text \<open>A channel count that the audio driver accepts as 8 bits cannot double to zero in 32 bits.\<close>

lemma double_channels:
  assumes "(ucast (c :: u32) :: 8 word) \<noteq> 0"
  shows "2 * c \<noteq> 0"
proof
  assume z: "2 * c = 0"
  have "2 * unat c mod 2 ^ 32 = 0"
    using arg_cong [OF z, of unat] by (simp add: unat_word_ariths(2))
  then obtain k where "2 * unat c = 2 ^ 32 * k" by (metis mod_eq_0_iff_dvd dvdE)
  then have "unat c = 256 * (8388608 * k)" by simp
  then have "256 dvd unat c" by (rule dvdI)
  then have "unat (ucast c :: 8 word) = 0" by (simp add: unsigned_ucast_eq take_bit_eq_mod)
  with assms show False by (simp only: unat_eq_0)
qed

lemma copy_text_stop:
  "i < length t \<Longrightarrow> t ! i = NUL \<or> length out \<le> i + 1 \<Longrightarrow> copy_text t out i = Some (out[i := NUL])"
  by (auto simp: copy_text.simps [of t out i])

lemma copy_text_next:
  "i < length t \<Longrightarrow> t ! i \<noteq> NUL \<Longrightarrow> i + 1 < length out \<Longrightarrow>
     copy_text t out i = copy_text t (out[i := t ! i]) (Suc i)"
  by (auto simp: copy_text.simps [of t out i])

lemma copy_text_inside:
  "i < length out \<Longrightarrow> length out \<le> length t \<Longrightarrow> \<exists>out'. copy_text t out i = Some out' \<and> length out' = length out"
proof (induction t out i rule: copy_text.induct)
  case (1 t out i)
  show ?case
  proof (cases "t ! i \<noteq> NUL \<and> i + 1 < length out")
    case True
    then show ?thesis using "1.IH" "1.prems" by (simp add: copy_text_next)
  next
    case False
    then show ?thesis using "1.prems" by (auto simp: copy_text_stop)
  qed
qed

lemma cstr_end: "terminated buf \<Longrightarrow> buf ! length (cstr buf) = NUL"
  unfolding cstr_def terminated_def by (induction buf) auto

lemma update_at_front: "length w = i \<Longrightarrow> i < length out \<Longrightarrow> (w @ drop i out)[i := x] = w @ x # drop (Suc i) out"
  by (cases "drop i out") (auto simp: list_update_append drop_Suc tl_drop [symmetric])

lemma copy_text_cstr:
  "i \<le> length (cstr t) \<Longrightarrow> terminated t \<Longrightarrow> i < length out \<Longrightarrow>
     copy_text t (take i (cstr t) @ drop i out) i =
       (let w = take (length out - 1) (cstr t) in Some (w @ NUL # drop (Suc (length w)) out))"
proof (induction "length t - i" arbitrary: i rule: less_induct)
  case less
  have i: "i < length t" using less.prems cstr_length_less [of t] by simp
  let ?out = "take i (cstr t) @ drop i out"
  have len: "length ?out = length out" using less.prems by simp
  show ?case
  proof (cases "i = length (cstr t)")
    case True
    then have "t ! i = NUL" using cstr_end less.prems(2) by simp
    moreover have "?out[i := NUL] = cstr t @ NUL # drop (Suc i) out"
      using update_at_front [of "take i (cstr t)" i out NUL] True less.prems(3) by simp
    moreover have "copy_text t ?out i = Some (?out[i := NUL])"
      using i calculation(1) by (simp only: copy_text_stop simp_thms)
    ultimately show ?thesis
      using True less.prems(3) by (simp add: Let_def)
  next
    case False
    then have lt: "i < length (cstr t)" using less.prems by simp
    have ti: "t ! i = cstr t ! i" "t ! i \<noteq> NUL"
      using lt unfolding cstr_def by (metis takeWhile_nth, metis (mono_tags) nth_mem set_takeWhileD takeWhile_nth)
    have upd: "?out[i := t ! i] = take (Suc i) (cstr t) @ drop (Suc i) out"
      using update_at_front [of "take i (cstr t)" i out] lt less.prems(3) ti(1)
      by (simp add: take_Suc_conv_app_nth)
    show ?thesis
    proof (cases "i + 1 < length out")
      case True
      then have "copy_text t ?out i = copy_text t (take (Suc i) (cstr t) @ drop (Suc i) out) (Suc i)"
        using copy_text_next [of i t ?out] i ti(2) len upd by simp
      then show ?thesis using less.hyps [of "Suc i"] lt True i less.prems(2) by simp
    next
      case stop: False
      then have o: "length out = Suc i" using less.prems(3) by simp
      have "?out[i := NUL] = take i (cstr t) @ [NUL]"
        using update_at_front [of "take i (cstr t)" i out NUL] lt o by simp
      moreover have "copy_text t ?out i = Some (?out[i := NUL])"
        using i o len by (intro copy_text_stop) auto
      ultimately show ?thesis using o lt by (simp add: Let_def min_def)
    qed
  qed
qed

text \<open>What a successful classification leaves behind.\<close>

context transport_hal
begin

lemma recv_ok_shrinks:
  assumes "sd_msg_recv io al type0 t (Some buf) = (SD_OK, ty, txt, t')" and "buf \<noteq> []"
  shows "\<exists>m b. ty = Some m \<and> txt = Some b \<and> length b = length buf \<and>
    length (incoming t') < length (incoming t) \<and> sent t' = sent t \<and> \<not> t_null io t'"
proof -
  have al: "al" using assms(1) by (auto simp: sd_msg_recv_def Let_def split: if_splits)
  obtain e k p t1 where f: "sd_frame_recv io t 8191 = (e, k, p, t1)" by (cases "sd_frame_recv io t 8191")
  have e: "e = SD_OK"
    using recv_err_frame [OF f, of type0 buf] assms(1) al by auto
  note ok = frame_recv_ok [OF f [unfolded e]]
  have "\<exists>m b. sd_msg_recv io True type0 t (Some buf) = (SD_OK, Some m, Some b, t1) \<and> length b = length buf"
    using recv_ok_frame [OF f [unfolded e] assms(2), of type0] assms(1) al by (auto split: if_splits)
  then show ?thesis using assms(1) al ok by auto
qed

end

text \<open>
  Text buffers that end in NUL before each message, as after clearing them: with them no message
  makes the turn read past the buffer.
\<close>

definition ends_nul :: "env \<Rightarrow> bool" where
  "ends_nul env \<longleftrightarrow> (\<forall>i. last (text_buf env i) = NUL)"

lemma say_simps [simp]:
  "conn (say ls s) = conn s" "dev (say ls s) = dev s" "metrics (say ls s) = metrics s"
  "response (say ls s) = response s" "turn_log (say ls s) = turn_log s @ ls"
  by (simp_all add: say_def)

lemma env_level [simp]: "env_ok (env\<lparr>log_max := lim\<rparr>) = env_ok env" "ends_nul (env\<lparr>log_max := lim\<rparr>) = ends_nul env"
  by (simp_all add: env_ok_def ends_nul_def)

lemma printable_terminated [simp]: "terminated t \<Longrightarrow> printable lim level t"
  by (simp add: printable_def)

lemma ai_reply_frame: "ai_reply lim t s = Some u \<Longrightarrow> conn u = conn s \<and> dev u = dev s"
  by (auto simp: ai_reply_def Let_def split: option.splits if_splits)

lemma ai_reply_defined: "terminated t \<Longrightarrow> ai_reply lim t s \<noteq> None"
  using copy_text_cstr [of 0 t "the (response s)"]
  by (auto simp: ai_reply_def text_length_def Let_def split: option.splits)

locale device = device_hal hal live sane + transport_hal io incoming sent
  for hal :: "'h hal_ops" and live sane and io :: "'t transport_ops" and incoming sent
begin

lemma play_live:
  "play_audio_downlink hal io env t b h = Some (e, t', h', ls) \<Longrightarrow> live h' = live h \<and> (sane h \<longrightarrow> sane h')"
  by (auto simp: play_audio_downlink_def Let_def dest!: audio play split: if_splits option.splits prod.splits)

text \<open>Whatever the begin message claims and the peer sends, the downlink is memory safe.\<close>

lemma play_safe:
  assumes "env_ok env"
  shows "play_audio_downlink hal io env t b h \<noteq> None"
proof -
  have len: "length (heap env n) = n" for n using assms by (simp add: env_ok_def)
  have cap: "unat sz < 2 ^ 64" for sz :: u32
  proof -
    have "unat sz < 2 ^ LENGTH(32)" by (rule unsigned_less)
    then show ?thesis by simp
  qed
  have body: "n = unat sz \<Longrightarrow> n \<le> length p \<Longrightarrow> sd_msg_recv_audio_body io al t ch sz sha (Some p) n \<noteq> None"
    for n al ch sz sha p
    using audio_body_safe [OF _ cap, of sz p al t ch sz sha] by fastforce
  have div: "2 * c \<noteq> 0" if "h_audio_init hal h r (ucast c) = (SD_OK, h')" for r and c :: u32 and h'
    using audio [OF that] double_channels by simp
  show ?thesis
    using div by (auto simp: play_audio_downlink_def Let_def body len split: if_splits option.splits prod.splits)
qed

text \<open>The loop ends on every stream, and never touches the camera's buffers.\<close>

lemma loop_returns:
  "env_ok env \<Longrightarrow> \<exists>r. uplink_loop hal io env t0 t1 i s = Some r \<and>
     (\<forall>e s'. r = Some (e, s') \<longrightarrow> live (dev s') = live (dev s) \<and> (sane (dev s) \<longrightarrow> sane (dev s'))) \<and>
     (ends_nul env \<or> well_escaped (incoming (conn s)) \<longrightarrow> r \<noteq> None)"
proof (induction "length (incoming (conn s))" arbitrary: i s rule: less_induct)
  case less
  obtain e ty msg t' where r: "sd_msg_recv io (al_recv env i) (type_buf env i) (conn s) (Some (text_buf env i)) = (e, ty, msg, t')"
    by (cases "sd_msg_recv io (al_recv env i) (type_buf env i) (conn s) (Some (text_buf env i))")
  let ?s = "s\<lparr>conn := t'\<rparr>"
  show ?case
  proof (cases "e = SD_OK")
    case False
    then show ?thesis by (simp add: uplink_loop.simps [of hal io env t0 t1 i s] r)
  next
    case True
    have buf: "text_buf env i \<noteq> []" using less.prems unfolding env_ok_def by (metis length_0_conv zero_neq_numeral)
    obtain m b where mb: "ty = Some m" "msg = Some b" "length b = length (text_buf env i)"
        "length (incoming t') < length (incoming (conn s))"
      using recv_ok_shrinks [OF r [unfolded True] buf] by blast
    have next_turn: "\<exists>r. uplink_loop hal io env t0 t1 (Suc i) u = Some r \<and>
        (\<forall>e s'. r = Some (e, s') \<longrightarrow> live (dev s') = live (dev s) \<and> (sane (dev s) \<longrightarrow> sane (dev s'))) \<and>
        (ends_nul env \<or> well_escaped (incoming t') \<longrightarrow> r \<noteq> None)"
      if "conn u = t'" "dev u = dev s" for u
      using less.hyps [of u "Suc i"] less.prems mb(4) that by simp
    let ?good = "ends_nul env \<or> well_escaped (incoming (conn s))"
    have esc: "?good \<Longrightarrow> ends_nul env \<or> well_escaped (incoming t')"
      and nul: "?good \<Longrightarrow> m = SD_MSG_AI_RESPONSE \<or> m = SD_MSG_ERROR \<Longrightarrow> terminated b"
      using recv_terminated [OF r buf] recv_escaped [OF r [unfolded True mb(1,2)] buf] mb(2) by (auto simp: ends_nul_def)
    note unf = uplink_loop.simps [of hal io env t0 t1 i s] r True mb
    consider (ai) "m = SD_MSG_AI_RESPONSE" | (begin_audio) "m = SD_MSG_AUDIO_BEGIN"
      | (done_turn) "m = SD_MSG_PLAY_AUDIO" | (phone_error) "m = SD_MSG_ERROR"
      | (skip) "m = SD_MSG_UNKNOWN \<or> m = SD_MSG_PONG \<or> m = SD_MSG_DEVICE_INFO"
      by (cases m) auto
    then show ?thesis
    proof cases
      case ai
      show ?thesis
      proof (cases "ai_reply (log_max env) b ?s")
        case None
        then have "\<not> ?good" using nul ai ai_reply_defined by blast
        with None show ?thesis by (simp add: unf ai)
      next
        case (Some u)
        then show ?thesis
          using next_turn [of u] ai_reply_frame [OF Some] Some esc by (auto simp: unf ai)
      qed
    next
      case begin_audio
      obtain e' t'' h' ls where p: "play_audio_downlink hal io env t' (cstr b) (dev s) = Some (e', t'', h', ls)"
        using play_safe [OF less.prems] by (metis not_None_eq prod_cases4)
      show ?thesis
        by (simp add: unf begin_audio p play_live [OF p])
    next
      case done_turn
      then show ?thesis by (simp add: unf)
    next
      case phone_error
      then show ?thesis using nul by (auto simp: unf)
    next
      case skip
      then have "uplink_loop hal io env t0 t1 i s = uplink_loop hal io env t0 t1 (Suc i) ?s"
        by (auto simp: unf Let_def)
      then show ?thesis using next_turn [of ?s] esc by auto
    qed
  qed
qed

text \<open>The whole turn: it returns, and whatever happened the captured buffer is given back.\<close>

lemma run_uplink_returns:
  assumes "env_ok env"
  shows "\<exists>r. sd_device_run_uplink hal io env image_id s = Some r \<and>
     (\<forall>e s'. r = Some (e, s') \<longrightarrow> live (dev s') = live (dev s) \<and> (sane (dev s) \<longrightarrow> sane (dev s'))) \<and>
     (ends_nul env \<or> well_escaped (incoming (conn s)) \<longrightarrow> r \<noteq> None)"
proof (cases "t_null io (conn s) \<or> image_id = None")
  case True
  then show ?thesis by (simp add: sd_device_run_uplink_def)
next
  case False
  obtain e img h where c: "h_capture hal (dev s) zero_image = (e, img, h)" by (cases "h_capture hal (dev s) zero_image")
  show ?thesis
  proof (cases "e = SD_OK")
    case False': False
    with False c show ?thesis using capture_err [OF c] by (auto simp: sd_device_run_uplink_def Let_def)
  next
    case True
    note got = capture_ok [OF c [unfolded True]]
    then obtain d where d: "img_data img = Mem d" by blast
    obtain e2 t2 where se: "sd_msg_send_image io (al_image env) (conn s) image_id (img_data img) (media_type img) = (e2, t2)"
      by (cases "sd_msg_send_image io (al_image env) (conn s) image_id (img_data img) (media_type img)")
    obtain img' h2 where rel: "h_release hal h img = (img', h2)" by (cases "h_release hal h img")
    have kept: "e2 = SD_OK \<Longrightarrow> incoming t2 = incoming (conn s)"
      using se send_image_ok unfolding d by blast
    have live: "live h2 = live (dev s)" "sane (dev s) \<longrightarrow> sane h2" using got release [OF rel d] by auto
    define m1 m2 where "m1 = map_option (\<lambda>m. m\<lparr>capture_ms := now_ms (clock env 1) - now_ms (clock env 0),
        sent_bytes := span_len (img_data img)\<rparr>) (map_option (\<lambda>_. zero_metrics) (metrics s))"
      and "m2 = map_option (\<lambda>m. m\<lparr>upload_ms := now_ms (clock env 2) - now_ms (clock env 1)\<rparr>) m1"
    define ls where "ls = turn_log s @ (backend_log hal (dev s) h @ [uplink_captured_line img]) @ backend_log hal h h2"
    define u where "u = s\<lparr>response := clear_text (response s), conn := t2, dev := h2, turn_log := ls, metrics := m2\<rparr>"
    have run: "sd_device_run_uplink hal io env image_id s =
        (if e2 \<noteq> SD_OK then Some (Some (e2, say [failed_line SD_LOG_ERROR ''uplink send'' e2]
           (s\<lparr>response := clear_text (response s), metrics := m1, conn := t2, dev := h2, turn_log := ls\<rparr>)))
         else uplink_loop hal io env (now_ms (clock env 0)) (now_ms (clock env 2)) 0 u)"
      using False by (auto simp: sd_device_run_uplink_def Let_def c True se rel u_def m1_def m2_def ls_def say_def)
    then show ?thesis
      using live loop_returns [OF assms, of "now_ms (clock env 0)" "now_ms (clock env 2)" 0 u] kept
      by (cases "e2 = SD_OK") (auto simp: u_def)
  qed
qed

text \<open>The capture cycle gives its buffer back and reports only what a complete cycle measured.\<close>

lemma capture_cycle:
  assumes "sd_device_capture_cycle hal h status = (e, status', h', ls)" and "sane h"
  shows "live h' = live h \<and> sane h' \<and> (e \<noteq> SD_OK \<longrightarrow> status' = status) \<and>
    (e = SD_OK \<longrightarrow> (\<exists>st. status' = Some st \<and> battery_percent st \<le> 100))"
proof -
  obtain e1 p where b: "h_battery_read hal h = (e1, p)" by (cases "h_battery_read hal h")
  obtain e2 img h1 where c: "h_capture hal h zero_image = (e2, img, h1)" by (cases "h_capture hal h zero_image")
  obtain img' h2 where r: "h_release hal h1 img = (img', h2)" by (cases "h_release hal h1 img")
  consider (early) "h' = h" "status' = status" "e \<noteq> SD_OK"
    | (nocap) "e = e2" "e2 \<noteq> SD_OK" "h' = h1" "status' = status"
    | (ok) st where "e = SD_OK" "e1 = SD_OK" "e2 = SD_OK" "h' = h2" "status' = Some st" "battery_percent st = p"
    using assms(1) b c r
    by (auto simp: sd_device_capture_cycle_def Let_def split: option.splits if_splits)
  then show ?thesis
  proof cases
    case early
    then show ?thesis using assms(2) by simp
  next
    case nocap
    then show ?thesis using capture_err [OF c] assms(2) by simp
  next
    case ok
    then obtain d where "img_data img = Mem d" using capture_ok c by blast
    then show ?thesis
      using ok capture_ok [of h zero_image img h1] c release [OF r] percent [OF assms(2)] b assms(2) by auto
  qed
qed

end

text \<open>The firmware's own pair: the TCP backend and the mocks.\<close>

interpretation dev: device mock_hal cam_live "\<lambda>h. s_percent h \<le> 100" tcp tcp_incoming tcp_sent
  by (intro device.intro mock.device_hal_axioms tcp.transport_hal_axioms)
end
