(* ===== verification/Turn.thy ===== *)
theory Turn
  imports Device
begin

text \<open>
  A complete turn of the device application: over a link that accepts what it is given, the image
  goes out as specified, the answer reaches the caller and the speech is played. The theory also
  holds the properties of \<open>Device\<close> on the firmware's own backends.
\<close>

section \<open>A link that accepts every write\<close>

locale ready_link = transport_hal io incoming sent
  for io :: "'t transport_ops" and incoming sent +
  fixes ready :: "'t \<Rightarrow> bool"
  assumes ready_send: "ready t \<Longrightarrow> \<exists>t'. t_send io t (Mem v) = (SD_OK, t') \<and> ready t'"
    and ready_open: "ready t \<Longrightarrow> \<not> t_null io t"
begin

lemma ready_frame_send:
  assumes "ready t" "kind_ok k" "length p \<le> SD_MAX_FRAME_BYTES"
  shows "\<exists>t'. sd_frame_send io t k (Mem p) = (SD_OK, t') \<and> ready t'"
proof -
  obtain t1 where "t_send io t (Mem (k # be32 (length p))) = (SD_OK, t1)" "ready t1"
    using ready_send [OF assms(1)] by blast
  moreover obtain t2 where "t_send io t1 (Mem p) = (SD_OK, t2)" "ready t2"
    using ready_send [OF \<open>ready t1\<close>] by blast
  ultimately show ?thesis using assms by (auto simp: sd_frame_send_def kind_ok_def)
qed

lemma ready_send_chunks: "ready t \<Longrightarrow> \<exists>t'. send_chunks io data seqs t = (SD_OK, t') \<and> ready t'"
proof (induction seqs arbitrary: t)
  case (Cons q seqs)
  have "length (chunk_frame data q) \<le> SD_MAX_FRAME_BYTES"
    using chunk_frame_length [of data q] chunk_frame_max by simp
  then obtain t1 where "sd_frame_send io t SD_KIND_BINARY (Mem (chunk_frame data q)) = (SD_OK, t1)" "ready t1"
    using ready_frame_send [OF Cons.prems] by (auto simp: kind_ok_def)
  then show ?case using Cons.IH by simp
qed simp

lemma ready_send_image:
  assumes "ready t" and "length (image_begin_json i (length data) (length (chunked data))
      (sd_sha256_hex data (length data)) m) < 256" and "length (image_end_json i) < 128"
  shows "\<exists>t'. sd_msg_send_image io True t (Some i) (Mem data) (Some m) = (SD_OK, t') \<and> ready t' \<and>
    sent t' = sent t @ image_wire i data m \<and> incoming t' = incoming t"
proof -
  let ?b = "image_begin_json i (length data) (chunk_count (length data)) (sd_sha256_hex data (length data)) m"
  have b: "length ?b < 256" using assms(2) by (simp add: length_chunked)
  obtain t1 where t1: "sd_frame_send io t SD_KIND_JSON (Mem (bytes_of_string ?b)) = (SD_OK, t1)" "ready t1"
    using ready_frame_send [OF assms(1), of SD_KIND_JSON "bytes_of_string ?b"] b
    by (auto simp: kind_ok_def SD_MAX_FRAME_BYTES_def)
  obtain t2 where t2: "send_chunks io (Mem data) [0..<chunk_count (length data)] t1 = (SD_OK, t2)" "ready t2"
    using ready_send_chunks [OF t1(2)] by blast
  obtain t3 where t3: "sd_frame_send io t2 SD_KIND_JSON (Mem (bytes_of_string (image_end_json i))) = (SD_OK, t3)" "ready t3"
    using ready_frame_send [OF t2(2), of SD_KIND_JSON "bytes_of_string (image_end_json i)"] assms(3)
    by (auto simp: kind_ok_def SD_MAX_FRAME_BYTES_def)
  have r: "sd_msg_send_image io True t (Some i) (Mem data) (Some m) = (SD_OK, t3)"
    using ready_open [OF assms(1)] b assms(3) t1 t2 t3 by (simp add: sd_msg_send_image_def Let_def)
  show ?thesis using r t3(2) send_image_ok [OF r] by simp
qed

end

text \<open>The host socket accepts every write when the kernel refuses none.\<close>

lemma send_loop_free: "send_loop v k [] out = (SD_OK, [], out @ drop k v)"
proof (cases "k < length v")
  case True
  moreover from True have "k + nat (int (length v) - int k) = length v" by simp
  ultimately have "send_loop v k [] out = send_loop v (length v) [] (out @ drop k v)"
    by (simp add: send_loop.simps [of v k])
  then show ?thesis by (simp add: send_loop.simps [of v "length v"])
qed (simp add: send_loop.simps [of v k])

definition tcp_ready :: "sock option \<Rightarrow> bool" where
  "tcp_ready t = (case t of None \<Rightarrow> False | Some c \<Rightarrow> tx c = [])"

interpretation tcp: ready_link tcp tcp_incoming tcp_sent tcp_ready
proof unfold_locales
  fix t v assume "tcp_ready t"
  then show "\<exists>t'. t_send tcp t (Mem v) = (SD_OK, t') \<and> tcp_ready t'"
    by (auto simp: tcp_ready_def tcp_def sd_transport_send_def send_loop_free split: option.splits)
next
  fix t assume "tcp_ready t"
  then show "\<not> t_null tcp t" by (auto simp: tcp_ready_def tcp_def split: option.splits)
qed

section \<open>The answer and the speech\<close>

text \<open>The fields that announce a speech of 16-bit samples.\<close>

definition announces :: "(string \<times> json_value) list \<Rightarrow> byte list \<Rightarrow> nat \<Rightarrow> nat \<Rightarrow> bool" where
  "announces fs pcm rate ch \<longleftrightarrow>
     field ''type'' fs = Some (JStr (codes ''audio_begin'')) \<and>
     field ''size'' fs = Some (JNum (length pcm)) \<and>
     field ''chunks'' fs = Some (JNum (length (chunked pcm))) \<and>
     field ''sample_rate'' fs = Some (JNum rate) \<and> field ''channels'' fs = Some (JNum ch) \<and>
     field ''sha256'' fs = Some (JStr (codes (sd_sha256_hex pcm (length pcm)))) \<and>
     (\<forall>f\<in>set fs. nul_free (fst f)) \<and> length (json_object fs) < 1024"

lemma key_ok_audio: "key_ok ''size''" "key_ok ''chunks''" "key_ok ''sample_rate''" "key_ok ''channels''" "key_ok ''sha256''"
  by (simp_all add: key_ok_def name_char_def is_digit_def code_def)

lemma hex_set: "set (sd_sha256_hex data len) \<subseteq> set hex_digits"
proof -
  have "length hex_digits = 16" by (simp add: hex_digits_def)
  moreover have "unat (drop_bit 4 b) < 16" "unat (b AND 0x0f) < 16" for b :: byte
  proof -
    have "unat b < 2 ^ LENGTH(8)" by (rule unsigned_less)
    then show "unat (drop_bit 4 b) < 16" by (simp add: drop_bit_eq_div unat_div less_mult_imp_div_less)
    have "b AND 0x0f \<le> 0x0f" by (rule word_and_le1)
    then have "unat (b AND 0x0f) \<le> 15" by (simp add: word_le_nat_alt)
    then show "unat (b AND 0x0f) < 16" by simp
  qed
  ultimately show ?thesis by (auto simp: sd_sha256_hex_def)
qed

lemma ascii_hex: "ascii (sd_sha256_hex data len)"
proof -
  have "list_all (\<lambda>c. 0 < code c \<and> code c < 0x80) hex_digits" by (simp add: hex_digits_def code_def)
  then show ?thesis using hex_set [of data len] unfolding ascii_def list_all_iff by blast
qed

lemma get_sha:
  assumes "field ''sha256'' fs = Some (JStr (codes (sd_sha256_hex d n)))" and "length buf = 65"
  shows "sd_json_get_string (Some (json_object fs)) (Some ''sha256'') (Some buf) =
    (SD_OK, Some (sd_sha256_hex d n @ NUL # []))"
proof -
  let ?h = "sd_sha256_hex d n"
  have a: "\<forall>n\<in>set (codes ?h). scalar n" "utf8_all (codes ?h) = ?h" using ascii_codes [OF ascii_hex] by auto
  have "fit (length buf) (codes ?h) = codes ?h" using a(2) assms(2) by (intro fit_all) simp
  moreover have "buf \<noteq> []" using assms(2) by auto
  ultimately show ?thesis
    using get_string_object [OF key_ok_audio(5) assms(1) a(1), of buf] a(2) assms(2) by (simp add: Let_def)
qed

text \<open>What the audio driver makes of a speech.\<close>

definition played :: "'h hal_ops \<Rightarrow> 'h \<Rightarrow> byte list \<Rightarrow> nat \<Rightarrow> nat \<Rightarrow> sd_err \<times> 'h" where
  "played hal h pcm rate ch =
     (case h_audio_init hal h (of_nat rate) (of_nat ch) of (err, h1) \<Rightarrow>
        if err = SD_OK then h_play hal h1 (Mem pcm) (length pcm div (2 * ch)) else (err, h1))"

definition played_log :: "'h hal_ops \<Rightarrow> 'h \<Rightarrow> byte list \<Rightarrow> nat \<Rightarrow> nat \<Rightarrow> log_line list" where
  "played_log hal h pcm rate ch =
     (case h_audio_init hal h (of_nat rate) (of_nat ch) of (err, h1) \<Rightarrow>
        if err = SD_OK
        then (case h_play hal h1 (Mem pcm) (length pcm div (2 * ch)) of (_, h2) \<Rightarrow>
                backend_log hal h h2 @ [played_line (length pcm div (2 * ch)) (of_nat rate) (of_nat ch)])
        else backend_log hal h h1 @ [unavailable_line err])"

locale turn = device hal live sane io incoming sent + ready_link io incoming sent ready
  for hal :: "'h hal_ops" and live sane and io :: "'t transport_ops" and incoming sent ready
begin

text \<open>The announced speech reaches the audio driver whole.\<close>

lemma downlink_plays:
  assumes "env_ok env" "al_pcm env" "al_frame env" and "announces fs pcm rate ch"
    and "pcm \<noteq> []" "length pcm < 2 ^ 32" "0 < ch" "ch < 256" and "\<not> t_null io t"
    and "incoming t = encode_all SD_KIND_BINARY (numbered 0 (chunked pcm)) @ encode_frame SD_KIND_JSON m @ rest"
    and "length m \<le> 4 + SD_CHUNK_SIZE"
  shows "\<exists>t'. incoming t' = rest \<and> sent t' = sent t \<and>
    play_audio_downlink hal io env t (json_object fs) h =
      Some (case played hal h pcm rate ch of (err, h') \<Rightarrow> (err, t', h', played_log hal h pcm rate ch))"
proof -
  note fs = assms(4) [unfolded announces_def]
  have num: "sd_json_get_uint (Some (json_object fs)) (Some k) (Some 0) = (SD_OK, Some (of_nat n))"
    if "key_ok k" "field k fs = Some (JNum n)" for k n
    using get_uint_object [OF that, of 0] by simp
  have len: "length (heap env n) = n" for n using assms(1) by (simp add: env_ok_def)
  have sha: "length (sha_buf env) = 65" using assms(1) by (simp add: env_ok_def)
  have sz: "unat (of_nat (length pcm) :: u32) = length pcm" using assms(6) by (simp add: unsigned_of_nat take_bit_nat_eq_self)
  have sz0: "(of_nat (length pcm) :: u32) \<noteq> 0"
  proof
    assume "(of_nat (length pcm) :: u32) = 0"
    then show False using sz assms(5) by simp
  qed
  obtain t' where body: "sd_msg_recv_audio_body io True t (of_nat (length (chunked pcm))) (of_nat (length pcm))
      (Some (sd_sha256_hex pcm (length pcm))) (Some (heap env (length pcm))) (length pcm) = Some (SD_OK, Some pcm, t')"
      and rest: "incoming t' = rest"
    using audio_body_data [OF assms(9,10,11,6), of "heap env (length pcm)"] assms(6) len by auto
  have ch: "(of_nat ch :: u32) \<noteq> 0" "2 * (of_nat ch :: u32) \<noteq> 0" "unat (2 * (of_nat ch :: u32)) = 2 * ch"
  proof -
    have u: "unat (of_nat (2 * ch) :: u32) = 2 * ch" using assms(8) by (subst unsigned_of_nat) (simp add: take_bit_nat_eq_self)
    then show "unat (2 * (of_nat ch :: u32)) = 2 * ch" by simp
    then show "2 * (of_nat ch :: u32) \<noteq> 0" using assms(7) by (metis nat_0_less_mult_iff not_gr_zero unat_eq_0 zero_less_numeral)
    then show "(of_nat ch :: u32) \<noteq> 0" by auto
  qed
  have "sent t' = sent t"
    using audio_body_safe [of "unat (of_nat (length pcm) :: u32)" "heap env (length pcm)" True t "of_nat (length (chunked pcm))"
        "of_nat (length pcm)" "Some (sd_sha256_hex pcm (length pcm))"] body sz len assms(6) by simp
  moreover have "(ucast (of_nat ch :: u32) :: 8 word) = of_nat ch" using assms(8) by (simp add: unsigned_of_nat take_bit_nat_eq_self)
  ultimately show ?thesis
    using rest fs assms(2,3) num key_ok_audio get_sha [of fs pcm "length pcm" "sha_buf env"] sha sz sz0 ch body
    by (intro exI [of _ t']) (auto simp: play_audio_downlink_def played_def played_log_def Let_def ascii_codes [OF ascii_hex] split: prod.splits)
qed

end

text \<open>An answer is copied to the caller, cut to the buffer, and the loop goes on.\<close>

definition answered :: "string \<Rightarrow> char list \<Rightarrow> char list" where
  "answered w out = (let w = take (length out - 1) w in w @ NUL # drop (Suc (length w)) out)"

lemma ai_reply_text:
  assumes "response s = Some out" "out \<noteq> []" "nul_free w"
  shows "ai_reply lim (w @ NUL # z) s =
    Some (s\<lparr>metrics := map_option (\<lambda>m. m\<lparr>response_bytes := length w\<rparr>) (metrics s), response := Some (answered w out),
      turn_log := turn_log s @ [answer_line w]\<rparr>)"
proof -
  have t: "terminated (w @ NUL # z)" by (simp add: terminated_def)
  have "copy_text (w @ NUL # z) out 0 = Some (answered w out)"
    using copy_text_cstr [of 0 "w @ NUL # z" out] t assms(2,3) by (simp add: answered_def)
  then show ?thesis
    using assms t by (cases s; cases "metrics s") (simp_all add: ai_reply_def text_length_def say_def Let_def)
qed

text \<open>What the phone sends for an answer that fits the text buffer.\<close>

definition answers :: "(string \<times> json_value) list \<Rightarrow> nat list \<Rightarrow> bool" where
  "answers fs v \<longleftrightarrow> field ''type'' fs = Some (JStr (codes ''ai_response'')) \<and> field ''text'' fs = Some (JStr v) \<and>
     (\<forall>n\<in>set v. scalar n) \<and> length (utf8_all v) < 1024 \<and>
     (\<forall>f\<in>set fs. nul_free (fst f)) \<and> length (json_object fs) < 8192"

context turn
begin

lemma loop_answer:
  assumes "env_ok env" "al_recv env i" "answers fs v" and "\<not> t_null io (conn s)"
    and "incoming (conn s) = encode_frame SD_KIND_JSON (message_payload fs) @ rest"
    and "response s = Some out" "out \<noteq> []"
  shows "\<exists>t'. \<not> t_null io t' \<and> incoming t' = rest \<and> sent t' = sent (conn s) \<and>
    uplink_loop hal io env t0 t1 i s = uplink_loop hal io env t0 t1 (Suc i)
      (s\<lparr>conn := t', metrics := map_option (\<lambda>m. m\<lparr>response_bytes := length (utf8_all v)\<rparr>) (metrics s),
         response := Some (answered (utf8_all v) out), turn_log := turn_log s @ [answer_line (utf8_all v)]\<rparr>)"
proof -
  note fs = assms(3) [unfolded answers_def]
  have b: "length (type_buf env i) = 32" "length (text_buf env i) = 1024"
    using assms(1) by (simp_all add: env_ok_def)
  then have ne: "text_buf env i \<noteq> []" "(text_buf env i)[0 := NUL] \<noteq> []" by (auto simp: list_update_nonempty)
  have a: "ascii ''ai_response''" "classify ''ai_response'' = (SD_MSG_AI_RESPONSE, Some ''text'')"
    by (simp_all add: ascii_def code_def classify_def)
  have reply: "snd (sd_json_get_string (Some (json_object fs)) (Some ''text'') (Some ((text_buf env i)[0 := NUL]))) =
      Some (utf8_all v @ NUL # drop (Suc (length (utf8_all v))) ((text_buf env i)[0 := NUL]))"
    using get_string_object [OF key_ok_fields(2) _ _ ne(2), of fs v] fs fit_all [of v 1024] b by (simp add: Let_def)
  obtain t' where t': "sd_msg_recv io True (type_buf env i) (conn s) (Some (text_buf env i)) =
      (SD_OK, Some SD_MSG_AI_RESPONSE,
       Some (utf8_all v @ NUL # drop (Suc (length (utf8_all v))) ((text_buf env i)[0 := NUL])), t')"
      "\<not> t_null io t'" "incoming t' = rest" "sent t' = sent (conn s)"
    using recv_message [OF assms(4,5) _ _ _ a(1) _ ne(1), of "type_buf env i"] fs b a(2) reply by auto
  have "nul_free (utf8_all v)" using fs nul_free_utf8_all by blast
  then show ?thesis
    using t' assms(2) ai_reply_text [of "s\<lparr>conn := t'\<rparr>" out "utf8_all v"] assms(6,7)
    by (intro exI [of _ t']) (simp add: uplink_loop.simps [of hal io env t0 t1 i s])
qed

text \<open>The announcement ends the loop with the downlink's result.\<close>

lemma loop_speech:
  assumes "env_ok env" "al_recv env i" "announces fs pcm rate ch" and "\<not> t_null io (conn s)"
    and "incoming (conn s) = encode_frame SD_KIND_JSON (message_payload fs) @ rest"
  shows "\<exists>t'. \<not> t_null io t' \<and> incoming t' = rest \<and> sent t' = sent (conn s) \<and>
    uplink_loop hal io env t0 t1 i s =
      Some (case play_audio_downlink hal io env t' (json_object fs) (dev s) of
              None \<Rightarrow> None
            | Some (err, t, h, ls) \<Rightarrow>
                Some (err, say ls (s\<lparr>conn := t, dev := h, metrics := finalize_metrics env (metrics s) t0 t1\<rparr>)))"
proof -
  note fs = assms(3) [unfolded announces_def]
  have b: "length (type_buf env i) = 32" "length (text_buf env i) = 1024"
    using assms(1) by (simp_all add: env_ok_def)
  then have ne: "text_buf env i \<noteq> []" by auto
  have a: "ascii ''audio_begin''" "classify ''audio_begin'' = (SD_MSG_AUDIO_BEGIN, None)"
    by (simp_all add: ascii_def code_def classify_def)
  let ?txt = "snprintf_str ((text_buf env i)[0 := NUL]) (json_object fs)"
  have reply: "cstr ?txt = json_object fs"
    using cstr_snprintf_str [OF nul_free_json_object, of fs "(text_buf env i)[0 := NUL]"] fs b ne by auto
  obtain t' where t': "sd_msg_recv io True (type_buf env i) (conn s) (Some (text_buf env i)) =
      (SD_OK, Some SD_MSG_AUDIO_BEGIN, Some ?txt, t')"
      "\<not> t_null io t'" "incoming t' = rest" "sent t' = sent (conn s)"
    using recv_message [OF assms(4,5) _ _ _ a(1) _ ne, of "type_buf env i"] fs b a(2) by auto
  then show ?thesis
    using assms(2) reply
    by (intro exI [of _ t']) (simp add: uplink_loop.simps [of hal io env t0 t1 i s] cong: option.case_cong)
qed

text \<open>The whole turn.\<close>

lemma turn_complete:
  assumes ok: "env_ok env" "al_image env" "al_recv env 0" "al_recv env 1" "al_pcm env" "al_frame env"
    and s: "ready (conn s)" "response s = Some out" "out \<noteq> []"
    and cap: "h_capture hal (dev s) zero_image = (SD_OK, img, h1)" "img_data img = Mem d" "media_type img = Some mt"
    and rel: "h_release hal h1 img = (img2, h2)"
    and name: "length (image_begin_json i (length d) (length (chunked d)) (sd_sha256_hex d (length d)) mt) < 256"
      "length (image_end_json i) < 128"
    and phone: "incoming (conn s) = encode_frame SD_KIND_JSON (message_payload fs) @
      encode_frame SD_KIND_JSON (message_payload bs) @
      encode_all SD_KIND_BINARY (numbered 0 (chunked pcm)) @ encode_frame SD_KIND_JSON m @ rest"
    and msgs: "answers fs v" "announces bs pcm rate ch"
    and pcm: "pcm \<noteq> []" "length pcm < 2 ^ 32" "0 < ch" "ch < 256" "length m \<le> 4 + SD_CHUNK_SIZE"
  shows "\<exists>s'. sd_device_run_uplink hal io env (Some i) s = Some (Some (fst (played hal h2 pcm rate ch), s')) \<and>
    dev s' = snd (played hal h2 pcm rate ch) \<and> sent (conn s') = sent (conn s) @ image_wire i d mt \<and>
    incoming (conn s') = rest \<and> response s' = Some (answered (utf8_all v) out) \<and>
    turn_log s' = turn_log s @ backend_log hal (dev s) h1 @ [uplink_captured_line img] @ backend_log hal h1 h2 @
      [answer_line (utf8_all v)] @ played_log hal h2 pcm rate ch \<and>
    (\<forall>k. metrics s = Some k \<longrightarrow> (\<exists>k'. metrics s' = Some k' \<and> sent_bytes k' = length d \<and>
      response_bytes k' = length (utf8_all v) \<and> total_ms k' = now_ms (clock env 3) - now_ms (clock env 0)))"
proof -
  obtain t1 where t1: "sd_msg_send_image io True (conn s) (Some i) (Mem d) (Some mt) = (SD_OK, t1)" "ready t1"
      "sent t1 = sent (conn s) @ image_wire i d mt" "incoming t1 = incoming (conn s)"
    using ready_send_image [OF s(1) name] by blast
  let ?t0 = "now_ms (clock env 0)" and ?t2 = "now_ms (clock env 2)"
  define m2 where "m2 = map_option (\<lambda>m. m\<lparr>upload_ms := now_ms (clock env 2) - now_ms (clock env 1)\<rparr>)
      (map_option (\<lambda>m. m\<lparr>capture_ms := now_ms (clock env 1) - now_ms (clock env 0),
        sent_bytes := span_len (img_data img)\<rparr>) (map_option (\<lambda>_. zero_metrics) (metrics s)))"
  define ls where "ls = turn_log s @ (backend_log hal (dev s) h1 @ [uplink_captured_line img]) @ backend_log hal h1 h2"
  define u where "u = s\<lparr>response := clear_text (response s), conn := t1, dev := h2, turn_log := ls, metrics := m2\<rparr>"
  have run: "sd_device_run_uplink hal io env (Some i) s = uplink_loop hal io env ?t0 ?t2 0 u"
    using ready_open [OF s(1)] t1(1) cap rel ok(2) by (simp add: sd_device_run_uplink_def Let_def u_def m2_def ls_def say_def)
  have u: "\<not> t_null io (conn u)" "incoming (conn u) = incoming (conn s)" "sent (conn u) = sent t1"
      "response u = Some (out[0 := NUL])" "out[0 := NUL] \<noteq> []"
    using t1 ready_open s by (simp_all add: u_def clear_text_def)
  obtain t2 where t2: "\<not> t_null io t2" "sent t2 = sent t1"
      "incoming t2 = encode_frame SD_KIND_JSON (message_payload bs) @
        encode_all SD_KIND_BINARY (numbered 0 (chunked pcm)) @ encode_frame SD_KIND_JSON m @ rest"
      "uplink_loop hal io env ?t0 ?t2 0 u = uplink_loop hal io env ?t0 ?t2 1
        (u\<lparr>conn := t2, metrics := map_option (\<lambda>m. m\<lparr>response_bytes := length (utf8_all v)\<rparr>) (metrics u),
           response := Some (answered (utf8_all v) (out[0 := NUL])), turn_log := turn_log u @ [answer_line (utf8_all v)]\<rparr>)"
    using loop_answer [OF ok(1,3) msgs(1) u(1) _ u(4,5), unfolded u(2), OF phone, of ?t0 ?t2] u(3) by auto
  let ?u = "u\<lparr>conn := t2, metrics := map_option (\<lambda>m. m\<lparr>response_bytes := length (utf8_all v)\<rparr>) (metrics u),
           response := Some (answered (utf8_all v) (out[0 := NUL])), turn_log := turn_log u @ [answer_line (utf8_all v)]\<rparr>"
  obtain t3 where t3: "\<not> t_null io t3" "sent t3 = sent t1"
      "incoming t3 = encode_all SD_KIND_BINARY (numbered 0 (chunked pcm)) @ encode_frame SD_KIND_JSON m @ rest"
      "uplink_loop hal io env ?t0 ?t2 1 ?u =
        Some (case play_audio_downlink hal io env t3 (json_object bs) h2 of
              None \<Rightarrow> None
            | Some (err, t, h, ls) \<Rightarrow>
                Some (err, say ls (?u\<lparr>conn := t, dev := h, metrics := finalize_metrics env (metrics ?u) ?t0 ?t2\<rparr>)))"
    using loop_speech [OF ok(1,4) msgs(2), of ?u _ ?t0 ?t2] t2 by (auto simp: u_def)
  obtain t4 where t4: "incoming t4 = rest" "sent t4 = sent t3"
      "play_audio_downlink hal io env t3 (json_object bs) h2 =
        Some (case played hal h2 pcm rate ch of (err, h') \<Rightarrow> (err, t4, h', played_log hal h2 pcm rate ch))"
    using downlink_plays [OF ok(1,5,6) msgs(2) pcm(1-4) t3(1,3) pcm(5)] by blast
  have a: "answered (utf8_all v) (out[0 := NUL]) = answered (utf8_all v) out"
    by (simp add: answered_def Let_def)
  show ?thesis
    unfolding run t2(4) t3(4) t4(3)
    using t1(3) t3(2) t4(1,2) a cap(2)
    by (cases "played hal h2 pcm rate ch") (auto simp: u_def ls_def m2_def finalize_metrics_def Let_def)
qed

end

interpretation dev: turn mock_hal cam_live "\<lambda>h. s_percent h \<le> 100" tcp tcp_incoming tcp_sent tcp_ready
  by (intro turn.intro dev.device_axioms tcp.ready_link_axioms)

section \<open>Properties of the device application\<close>

text \<open>A concrete environment for the witnesses.\<close>

definition sample_env :: env where
  "sample_env = \<lparr>clock = (\<lambda>k. (k, 0)), al_image = True, al_recv = (\<lambda>i. True), type_buf = (\<lambda>i. replicate 32 NUL),
     text_buf = (\<lambda>i. replicate 1024 (CHR ''?'')), sha_buf = replicate 65 NUL, al_pcm = True,
     heap = (\<lambda>n. replicate n 0), al_frame = True, log_max = SD_LOG_INFO\<rparr>"

definition sample_turn :: "sock \<Rightarrow> (sock option, mock) turn" where
  "sample_turn c = \<lparr>conn = Some c, response = Some (replicate 8 NUL), metrics = None,
     dev = (mock_boot [] None)\<lparr>cam_initialized := True\<rparr>, turn_log = []\<rparr>"

lemma sample_env_simps [simp]:
  "al_image sample_env" "al_recv sample_env i" "al_pcm sample_env" "al_frame sample_env"
  "type_buf sample_env i = replicate 32 NUL" "text_buf sample_env i = replicate 1024 (CHR ''?'')"
  by (simp_all add: sample_env_def)

lemma sample_env_ok: "env_ok sample_env"
  by (simp add: env_ok_def sample_env_def)

lemma image_names_fit:
  assumes "length i < 50"
  shows "length (image_begin_json i (length mock_pixels) (length (chunked mock_pixels))
      (sd_sha256_hex mock_pixels (length mock_pixels)) ''image/x-mock-rgb'') < 256"
    and "length (image_end_json i) < 128"
proof -
  have "length mock_pixels = 9216"
    by (simp add: mock_pixels_def length_concat comp_def sum_list_triv MOCK_W_def MOCK_H_def)
  then show "length (image_begin_json i (length mock_pixels) (length (chunked mock_pixels))
      (sd_sha256_hex mock_pixels (length mock_pixels)) ''image/x-mock-rgb'') < 256"
    using assms by (simp add: image_begin_json_def length_chunked chunk_count_def SD_CHUNK_SIZE_def decimal.simps)
  show "length (image_end_json i) < 128" using assms by (simp add: image_end_json_def)
qed

lemma mock_captures:
  assumes "cam_initialized h" "cam_mem h = []"
  obtains img h1 where "h_capture mock_hal h zero_image = (SD_OK, img, h1)" "img_data img = Mem mock_pixels"
    "media_type img = Some ''image/x-mock-rgb''" "h_release mock_hal h1 img = (img\<lparr>img_data := Null 0\<rparr>, h)"
    "image_text img = ''captured 64x48 image/x-mock-rgb (9216 bytes)''"
proof -
  have "length mock_pixels = 9216"
    by (simp add: mock_pixels_def length_concat comp_def sum_list_triv MOCK_W_def MOCK_H_def)
  moreover have "decimal 9216 = ''9216''" "decimal 64 = ''64''" "decimal 48 = ''48''"
    by (simp_all add: decimal.simps digit_char_def char_of_eq)
  ultimately show thesis
    using assms by (intro that) (auto simp: mock_hal_def mock_capture_def mock_release_def image_text_def MOCK_W_def MOCK_H_def Let_def)
qed

lemma mock_plays:
  assumes "0 < rate" "rate < 2 ^ 32" "0 < ch" "ch < 256"
  shows "\<exists>h'. played mock_hal h pcm rate ch = (SD_OK, h') \<and> cam_live h' = cam_live h \<and>
    s_frames_played h' = length pcm div (2 * ch) \<and> unat (s_sample_rate h') = rate \<and> unat (s_channels h') = ch \<and>
    played_log mock_hal h pcm rate ch = [played_line (length pcm div (2 * ch)) (of_nat rate) (of_nat ch)]"
proof -
  have r: "unat (of_nat rate :: u32) = rate" using assms(2) by (simp add: unsigned_of_nat take_bit_nat_eq_self)
  have c: "unat (of_nat ch :: 8 word) = ch" using assms(4) by (simp add: unsigned_of_nat take_bit_nat_eq_self)
  have "(of_nat rate :: u32) \<noteq> 0" "(of_nat ch :: 8 word) \<noteq> 0"
    using r c assms(1,3) by (metis less_irrefl_nat unsigned_0)+
  then show ?thesis using r c by (simp add: played_def played_log_def mock_audio_init_def mock_play_def)
qed

text \<open>
  C2: a complete turn of the device over TCP with the mock peripherals: the bytes sent are the
  specified transfer of the captured image, the caller's buffer holds the phone's answer, and the
  announced speech is played frame for frame at its rate; the image buffer is given back.
\<close>

theorem sd_device_run_uplink_turn:
  assumes "env_ok env" "al_image env" "al_recv env 0" "al_recv env 1" "al_pcm env" "al_frame env"
    and "conn s = Some c" "tx c = []" "response s = Some out" "out \<noteq> []"
    and "cam_initialized (dev s)" "cam_mem (dev s) = []" and "length i < 50"
    and "stream (rx c) = encode_frame SD_KIND_JSON (message_payload fs) @
      encode_frame SD_KIND_JSON (message_payload bs) @
      encode_all SD_KIND_BINARY (numbered 0 (chunked pcm)) @ encode_frame SD_KIND_JSON m @ rest"
    and "answers fs v" "announces bs pcm rate ch"
    and "pcm \<noteq> []" "length pcm < 2 ^ 32" "0 < rate" "rate < 2 ^ 32" "0 < ch" "ch < 256"
    and "length m \<le> 4 + SD_CHUNK_SIZE"
  shows "\<exists>s'. sd_device_run_uplink mock_hal tcp env (Some i) s = Some (Some (SD_OK, s')) \<and>
    tcp_sent (conn s') = wire c @ image_wire i mock_pixels ''image/x-mock-rgb'' \<and> tcp_incoming (conn s') = rest \<and>
    response s' = Some (answered (utf8_all v) out) \<and> cam_live (dev s') = cam_live (dev s) \<and>
    s_frames_played (dev s') = length pcm div (2 * ch) \<and> unat (s_sample_rate (dev s')) = rate \<and>
    unat (s_channels (dev s')) = ch"
proof -
  obtain img h1 where h: "h_capture mock_hal (dev s) zero_image = (SD_OK, img, h1)" "img_data img = Mem mock_pixels"
      "media_type img = Some ''image/x-mock-rgb''" "h_release mock_hal h1 img = (img\<lparr>img_data := Null 0\<rparr>, dev s)"
    using mock_captures [OF assms(11,12)] by blast
  have c: "tcp_ready (conn s)" "tcp_sent (conn s) = wire c" "tcp_incoming (conn s) = stream (rx c)"
    using assms(7,8) by (simp_all add: tcp_ready_def tcp_state)
  show ?thesis
    using dev.turn_complete [OF assms(1-6) c(1) assms(9,10) h image_names_fit [OF assms(13)]
        assms(14) [folded c(3)] assms(15-18,21-23)]
      mock_plays [OF assms(19-22), of "dev s" pcm] c(2) by auto
qed



definition bad_turn :: "uplink_metrics option \<Rightarrow> (sock option, mock) turn" where
  "bad_turn m = (sample_turn bad_escape_sock)\<lparr>metrics := m\<rparr>"

lemma bad_escape_text_1024:
  "sd_json_get_string (Some bad_escape_json) (Some ''text'') (Some (NUL # replicate 1023 (CHR ''?''))) =
     (SD_ERR_INVALID, Some (''abcd'' @ replicate 1020 (CHR ''?'')))"
  by code_simp

lemma bad_turn_overread:
  assumes "lim = SD_LOG_INFO \<or> m \<noteq> None"
  shows "sd_device_run_uplink mock_hal tcp (sample_env\<lparr>log_max := lim\<rparr>) (Some ''img-1'') (bad_turn m) = Some None"
proof -
  let ?s = "bad_turn m" and ?e = "sample_env\<lparr>log_max := lim\<rparr>" and ?p = "bytes_of_string bad_escape_json"
  have c: "tcp_ready (conn ?s)" "tcp_incoming (conn ?s) = encode_frame SD_KIND_JSON ?p @ []"
    by (simp_all add: bad_turn_def sample_turn_def tcp_ready_def tcp_state bad_escape_sock_def encode_frame_def)
  have i: "length ''img-1'' < 50" by simp
  obtain img h1 where h: "h_capture mock_hal (dev ?s) zero_image = (SD_OK, img, h1)" "img_data img = Mem mock_pixels"
      "media_type img = Some ''image/x-mock-rgb''" "h_release mock_hal h1 img = (img\<lparr>img_data := Null 0\<rparr>, dev ?s)"
    by (rule mock_captures [of "dev ?s"]) (simp_all add: bad_turn_def sample_turn_def mock_boot_def)
  obtain t1 where t1: "sd_msg_send_image tcp True (conn ?s) (Some ''img-1'') (Mem mock_pixels) (Some ''image/x-mock-rgb'') = (SD_OK, t1)"
      "tcp_ready t1" "tcp_incoming t1 = encode_frame SD_KIND_JSON ?p @ []"
    using tcp.ready_send_image [OF c(1) image_names_fit [OF i]] c(2) by metis
  have l: "length ?p \<le> 8191" "length ?p \<le> SD_MAX_FRAME_BYTES"
    by (simp_all add: bad_escape_json_def SD_MAX_FRAME_BYTES_def)
  obtain t2 where r: "sd_frame_recv tcp t1 8191 = (SD_OK, SD_KIND_JSON, ?p, t2)"
    using tcp.frame_recv_encoded [of t1 SD_KIND_JSON ?p "[]" 8191] l t1(3) tcp.ready_open [OF t1(2)] by auto
  have "nul_free bad_escape_json" by (simp add: bad_escape_json_def)
  moreover have "cstr (''ai_response'' @ replicate 21 NUL) = ''ai_response''"
    by (simp add: cstr_def numeral_eq_Suc)
  moreover have "(replicate 1024 (CHR ''?''))[0 := NUL] = NUL # replicate 1023 (CHR ''?'')"
    by (simp add: numeral_eq_Suc)
  ultimately have m: "sd_msg_recv tcp True (replicate 32 NUL) t1 (Some (replicate 1024 (CHR ''?''))) =
      (SD_OK, Some SD_MSG_AI_RESPONSE, Some (''abcd'' @ replicate 1020 (CHR ''?'')), t2)"
    using r bad_escape_type bad_escape_text_1024
    by (simp add: sd_msg_recv_def clear_text_def classify_def Let_def)
  have "\<not> terminated (''abcd'' @ replicate 1020 (CHR ''?''))" by (simp add: terminated_def)
  moreover have "text_buf ?e i = replicate 1024 (CHR ''?'')" "type_buf ?e i = replicate 32 NUL" "al_recv ?e i" "al_image ?e"
      "log_max ?e = lim" for i
    by (simp_all add: sample_env_def)
  ultimately have "uplink_loop mock_hal tcp ?e t0 t3 0 u = Some None"
    if "conn u = t1" "lim = SD_LOG_INFO \<or> metrics u \<noteq> None" for t0 t3 u
    using m that by (auto simp: uplink_loop.simps [of mock_hal tcp ?e t0 t3 0] ai_reply_def text_length_def printable_def Let_def
        split: option.splits)
  moreover have "metrics ?s = m" "conn ?s = Some bad_escape_sock" "al_image ?e"
    by (simp_all add: bad_turn_def sample_turn_def sample_env_def)
  ultimately show ?thesis
    using h t1(1) tcp.ready_open [OF c(1)] assms by (simp add: sd_device_run_uplink_def Let_def)
qed



text \<open>
  Whatever the begin message claims and the peer sends, the audio downlink stays inside the
  PCM buffer it allocated and never divides by zero.
\<close>

theorem play_audio_downlink_safe:
  assumes "env_ok env"
  shows "\<exists>e t' h' ls. play_audio_downlink mock_hal tcp env t b h = Some (e, t', h', ls) \<and> cam_live h' = cam_live h"
proof -
  obtain e t' h' ls where "play_audio_downlink mock_hal tcp env t b h = Some (e, t', h', ls)"
    using dev.play_safe [OF assms, of t b h] by (metis not_None_eq prod_cases4)
  then show ?thesis using dev.play_live by blast
qed

section \<open>Witnesses\<close>

lemma quiet_hex: "k \<noteq> [] \<Longrightarrow> length k < 60 \<Longrightarrow> quiet k (JStr (codes (sd_sha256_hex d n)))"
proof -
  assume k: "k \<noteq> []" "length k < 60"
  have "sd_sha256_hex d n \<noteq> k" using k length_sd_sha256_hex [of d n] by auto
  moreover have "codes s = codes k \<Longrightarrow> s = k" for s
    by (metis list.inj_map_strong of_char_eq_iff)
  moreover have "0x22 \<notin> set (codes (sd_sha256_hex d n))"
  proof -
    have "set (sd_sha256_hex d n) \<subseteq> set hex_digits" using hex_set by blast
    moreover have "(0x22 :: nat) \<notin> of_char ` set hex_digits" by (simp add: hex_digits_def)
    ultimately show ?thesis by auto
  qed
  ultimately show ?thesis by (auto simp: quiet_def dest: set_mono_suffix)
qed

definition speech_fields :: "(string \<times> json_value) list" where
  "speech_fields = [(''channels'', JNum 1), (''chunks'', JNum 1), (''sample_rate'', JNum 24000),
     (''sha256'', JStr (codes (sd_sha256_hex [1, 2, 3, 4] (length [1, 2, 3, 4 :: byte])))), (''size'', JNum 4), (''type'', JStr (codes ''audio_begin''))]"

lemma escape_length: "length (escape_all v) \<le> 12 * length v"
proof -
  have "length (json_escape n) \<le> 12" for n by (simp add: json_escape_def u_escape_def)
  then show ?thesis by (induction v) (auto simp: escape_all_def intro: add_mono)
qed

lemma sample_chunks: "chunked [1, 2, 3, 4] = [[1, 2, 3, 4]]"
  by (subst chunked.simps) (simp add: SD_CHUNK_SIZE_def)

lemma speech_announced: "announces speech_fields [1, 2, 3, 4] 24000 1"
proof -
  have "length (escape_all (codes (sd_sha256_hex [1, 2, 3, 4] (length [1, 2, 3, 4 :: byte])))) \<le> 768"
    using escape_length [of "codes (sd_sha256_hex [1, 2, 3, 4] (length [1, 2, 3, 4 :: byte]))"] by simp
  moreover have "length (escape_all (codes ''audio_begin'')) = 11" by code_simp
  ultimately have "length (json_object speech_fields) < 1024"
    by (simp add: speech_fields_def json_object_def json_field_def decimal.simps)
  then show ?thesis
    using key_ok_audio key_ok_fields
    by (simp add: announces_def speech_fields_def sample_chunks quiet_hex) (simp add: quiet_def)
qed

definition spoken_sock :: sock where
  "spoken_sock = \<lparr>rx = [Rx_data (encode_frame SD_KIND_JSON (message_payload (ai_fields (codes ''Hi'')))),
     Rx_data (encode_frame SD_KIND_JSON (message_payload speech_fields)),
     Rx_data (encode_all SD_KIND_BINARY (numbered 0 (chunked [1, 2, 3, 4]))),
     Rx_data (encode_frame SD_KIND_JSON [0x7B])], tx = [], wire = []\<rparr>"

lemma hi_answers: "answers (ai_fields (codes ''Hi'')) (codes ''Hi'')"
proof -
  have "length (json_object (ai_fields (codes ''Hi''))) < 8192" by code_simp
  moreover have "length (utf8_all (codes ''Hi'')) < 1024" by code_simp
  ultimately show ?thesis
    using key_ok_fields by (simp add: answers_def ai_fields_def suffix_Cons quiet_def scalar_def)
qed

theorem sd_device_run_uplink_turn_witness:
  "\<exists>s'. sd_device_run_uplink mock_hal tcp sample_env (Some ''img-1'') (sample_turn spoken_sock) = Some (Some (SD_OK, s')) \<and>
    tcp_sent (conn s') = wire spoken_sock @ image_wire ''img-1'' mock_pixels ''image/x-mock-rgb'' \<and>
    tcp_incoming (conn s') = [] \<and>
    response s' = Some (answered (utf8_all (codes ''Hi'')) (replicate 8 NUL)) \<and>
    cam_live (dev s') = cam_live (dev (sample_turn spoken_sock)) \<and>
    s_frames_played (dev s') = length [1, 2, 3, 4 :: byte] div (2 * 1) \<and> unat (s_sample_rate (dev s')) = 24000 \<and>
    unat (s_channels (dev s')) = 1"
proof (rule sd_device_run_uplink_turn [where fs = "ai_fields (codes ''Hi'')" and bs = speech_fields and m = "[0x7B]"])
  show "answers (ai_fields (codes ''Hi'')) (codes ''Hi'')" by (rule hi_answers)
next
  show "announces speech_fields [1, 2, 3, 4] 24000 1" by (rule speech_announced)
qed (simp_all add: sample_env_ok sample_turn_def mock_boot_def spoken_sock_def sample_chunks numbered_Cons
  encode_frame_def SD_CHUNK_SIZE_def)


definition cleared_env :: env where
  "cleared_env = sample_env\<lparr>text_buf := (\<lambda>i. replicate 1023 (CHR ''?'') @ [NUL])\<rparr>"

text \<open>A phone that answers with an escape and hangs up inside the next frame.\<close>

definition hung_up_sock :: sock where
  "hung_up_sock = \<lparr>rx = [Rx_data (encode_frame SD_KIND_JSON (message_payload (ai_fields [0x22, 0x41])) @ [0x01, 0x00])],
     tx = [], wire = []\<rparr>"

lemma hung_up_escaped: "well_escaped (tcp_incoming (conn (sample_turn hung_up_sock)))"
proof -
  let ?p = "message_payload (ai_fields [0x22, 0x41])"
  have "length ?p \<le> 8191" by code_simp
  then have "parse_frame 8191 (encode_frame SD_KIND_JSON ?p @ [0x01, 0x00]) = Frame SD_KIND_JSON ?p [0x01, 0x00]"
    by (intro parse_encode_frame) (simp_all add: SD_MAX_FRAME_BYTES_def)
  moreover have "list_all (escapes_ok (cstr (string_of_bytes ?p @ [NUL]))) [''text'', ''message'']" by code_simp
  moreover have "well_escaped [0x01, 0x00]" by (simp add: well_escaped.simps)
  ultimately show ?thesis
    by (simp add: sample_turn_def hung_up_sock_def tcp_state well_escaped.simps [of "encode_frame SD_KIND_JSON ?p @ [0x01, 0x00]"])
qed


definition sample_status :: device_status where
  "sample_status = \<lparr>image_bytes = 7, image_width = 1, image_height = 1, battery_percent = 50\<rparr>"


theorem play_audio_downlink_safe_witness:
  "\<exists>e t' h' ls. play_audio_downlink mock_hal tcp sample_env None ''{}'' (mock_boot [] None) = Some (e, t', h', ls) \<and>
    cam_live h' = cam_live (mock_boot [] None)"
  by (rule play_audio_downlink_safe) (rule sample_env_ok)

section \<open>Latency across the wrap of the clock\<close>

definition millis :: "nat \<times> nat \<Rightarrow> nat" where
  "millis ts = fst ts * 1000 + snd ts div 1000000"

lemma now_ms_millis: "now_ms ts = of_nat (millis ts)"
  by (cases ts) (simp add: now_ms_def millis_def)

lemma now_ms_diff:
  assumes "millis a \<le> millis b" "millis b - millis a < 2 ^ 32"
  shows "unat (now_ms b - now_ms a) = millis b - millis a"
proof -
  have "now_ms b - now_ms a = of_nat (millis b - millis a)"
    using assms(1) by (simp add: now_ms_millis of_nat_diff)
  then show ?thesis using assms(2) by (simp add: unsigned_of_nat take_bit_nat_eq_self)
qed

text \<open>
  C40: the reported latencies are the real ones in milliseconds even when the 32-bit millisecond
  counter wraps during the turn, for turns of less than 2^32 ms.
\<close>

theorem finalize_metrics_wrap:
  assumes "millis ts \<le> millis tu" "millis tu \<le> millis (clock env 3)" "millis (clock env 3) - millis ts < 2 ^ 32"
  shows "\<exists>m'. finalize_metrics env (Some m) (now_ms ts) (now_ms tu) = Some m' \<and>
    unat (total_ms m') = millis (clock env 3) - millis ts \<and> unat (response_ms m') = millis (clock env 3) - millis tu"
  using now_ms_diff [of ts "clock env 3"] now_ms_diff [of tu "clock env 3"] assms
  by (simp add: finalize_metrics_def Let_def)

theorem finalize_metrics_wrap_witness:
  "\<exists>m'. finalize_metrics (sample_env\<lparr>clock := (\<lambda>k. (4294968, 0))\<rparr>) (Some zero_metrics)
      (now_ms (4294967, 0)) (now_ms (4294967, 500000000)) = Some m' \<and>
    unat (total_ms m') = millis (4294968, 0) - millis (4294967, 0) \<and>
    unat (response_ms m') = millis (4294968, 0) - millis (4294967, 500000000)"
  using finalize_metrics_wrap [of "(4294967, 0)" "(4294967, 500000000)" "sample_env\<lparr>clock := (\<lambda>k. (4294968, 0))\<rparr>" zero_metrics]
  by (simp add: millis_def)

end
