(* ===== verification/Connect.thy ===== *)
theory Connect
  imports Transport
begin

text \<open>
  Opening and closing a connection on the host (\<open>src/hal/host/transport_tcp.c\<close>): the bounded connect
  attempt, the loop over the resolved addresses, the timeouts of the socket and the release of a
  handle. The resolver and the socket calls are the environment; what the model tracks is which
  descriptors are open, their modes, and the time spent waiting. The Wi-Fi backend is in \<open>Wifi\<close>.
\<close>

section \<open>Descriptors\<close>

record timeval =
  tv_sec :: nat
  tv_usec :: nat

text \<open>The mode of a socket: \<open>O_NONBLOCK\<close>, \<open>SO_RCVTIMEO\<close> and \<open>SO_SNDTIMEO\<close> (\<open>None\<close>: wait for ever).\<close>

record sock_mode =
  nonblock :: bool
  rcvtimeo :: "timeval option"
  sndtimeo :: "timeval option"

text \<open>
  The kernel's side: the open descriptors with their modes, whether it grants the two options on a
  descriptor, and the milliseconds the program has been blocked in \<open>select\<close>.
\<close>

record fd_table =
  next_fd :: nat
  open_fds :: "nat list"
  modes :: "nat \<Rightarrow> sock_mode"
  grants :: "nat \<Rightarrow> bool \<times> bool"
  waited :: nat

definition os_socket :: "fd_table \<Rightarrow> nat \<times> fd_table" where
  "os_socket ft =
     (next_fd ft,
      ft\<lparr>next_fd := Suc (next_fd ft), open_fds := next_fd ft # open_fds ft,
         modes := (modes ft)(next_fd ft := \<lparr>nonblock = False, rcvtimeo = None, sndtimeo = None\<rparr>)\<rparr>)"

definition os_close :: "nat \<Rightarrow> fd_table \<Rightarrow> fd_table" where
  "os_close fd ft = ft\<lparr>open_fds := removeAll fd (open_fds ft)\<rparr>"

definition set_nonblock :: "nat \<Rightarrow> bool \<Rightarrow> fd_table \<Rightarrow> fd_table" where
  "set_nonblock fd b ft = ft\<lparr>modes := (modes ft)(fd := (modes ft fd)\<lparr>nonblock := b\<rparr>)\<rparr>"

definition fds_ok :: "fd_table \<Rightarrow> bool" where
  "fds_ok ft \<longleftrightarrow> (\<forall>fd \<in> set (open_fds ft). fd < next_fd ft)"

section \<open>Bounded waits\<close>

definition SD_CONNECT_TIMEOUT_MS :: nat where "SD_CONNECT_TIMEOUT_MS = 5000"
definition SD_IO_TIMEOUT_MS :: nat where "SD_IO_TIMEOUT_MS = 15000"

text \<open>\<open>set_io_timeouts\<close>; the results of the two \<open>setsockopt\<close> calls are not looked at.\<close>

definition set_io_timeouts :: "nat \<Rightarrow> fd_table \<Rightarrow> fd_table" where
  "set_io_timeouts fd ft =
     (let tv = \<lparr>tv_sec = SD_IO_TIMEOUT_MS div 1000, tv_usec = SD_IO_TIMEOUT_MS mod 1000 * 1000\<rparr>;
          m = modes ft fd;
          m = (if fst (grants ft fd) then m\<lparr>rcvtimeo := Some tv\<rparr> else m);
          m = (if snd (grants ft fd) then m\<lparr>sndtimeo := Some tv\<rparr> else m)
      in ft\<lparr>modes := (modes ft)(fd := m)\<rparr>)"

datatype connect_answer = Connected | In_progress | Refused

text \<open>
  What the kernel answers for one resolved address, call by call; \<open>ai_select\<close> is when the socket
  becomes writable, in milliseconds, and \<open>None\<close> when \<open>select\<close> fails.
\<close>

record address_env =
  ai_socket :: bool
  ai_getfl :: bool
  ai_setfl :: bool
  ai_connect :: connect_answer
  ai_select :: "nat option"
  ai_getsockopt :: int
  ai_so_error :: int
  ai_restore :: bool

definition os_select :: "nat option \<Rightarrow> timeval \<Rightarrow> fd_table \<Rightarrow> int \<times> fd_table" where
  "os_select ready tv ft =
     (case ready of None \<Rightarrow> (-1, ft)
      | Some ms \<Rightarrow> (let limit = tv_sec tv * 1000 + tv_usec tv div 1000
                   in (if ms \<le> limit then 1 else 0, ft\<lparr>waited := waited ft + min ms limit\<rparr>)))"

text \<open>
  \<open>connect_with_timeout\<close>. The restoring \<open>fcntl\<close> is not checked by the code: when it fails the socket
  stays in non-blocking mode.
\<close>

definition connect_with_timeout :: "nat \<Rightarrow> address_env \<Rightarrow> fd_table \<Rightarrow> int \<times> fd_table" where
  "connect_with_timeout fd ai ft =
     (let flags = nonblock (modes ft fd);
          done = (\<lambda>ft. (0, if ai_restore ai then set_nonblock fd flags ft else ft))
      in if \<not> ai_getfl ai \<or> \<not> ai_setfl ai then (-1, ft)
         else (let ft = set_nonblock fd True ft
               in case ai_connect ai of
                    Refused \<Rightarrow> (-1, ft)
                  | In_progress \<Rightarrow>
                      (case os_select (ai_select ai)
                              \<lparr>tv_sec = SD_CONNECT_TIMEOUT_MS div 1000, tv_usec = SD_CONNECT_TIMEOUT_MS mod 1000 * 1000\<rparr> ft of
                         (n, ft) \<Rightarrow>
                           if n \<le> 0 then (-1, ft)
                           else if ai_getsockopt ai < 0 \<or> ai_so_error ai \<noteq> 0 then (-1, ft)
                           else done ft)
                  | Connected \<Rightarrow> done ft))"

text \<open>The loop over the resolved addresses; \<open>None\<close> is \<open>fd = -1\<close> after the loop.\<close>

fun connect_loop :: "address_env list \<Rightarrow> fd_table \<Rightarrow> nat option \<times> fd_table" where
  "connect_loop [] ft = (None, ft)"
| "connect_loop (ai # ais) ft =
     (if \<not> ai_socket ai then connect_loop ais ft
      else (case os_socket ft of (fd, ft) \<Rightarrow>
            case connect_with_timeout fd ai ft of (rc, ft) \<Rightarrow>
              if rc = 0 then (Some fd, ft)
              else connect_loop ais (os_close fd ft)))"

section \<open>Connecting and closing\<close>

datatype ai_family = AF_UNSPEC | AF_INET

text \<open>\<open>getaddrinfo\<close>: family, host and port text to a list of addresses; \<open>None\<close> is an error.\<close>

type_synonym resolver = "ai_family \<Rightarrow> string \<Rightarrow> string \<Rightarrow> address_env list option"

definition port_str :: "16 word \<Rightarrow> string" where
  "port_str port = cstr (snprintf_str (replicate 8 NUL) (decimal (unat port)))"

text \<open>
  \<open>out\<close> and \<open>host\<close> are \<open>None\<close> for NULL (\<open>out\<close> only by its presence), \<open>alloc\<close> says whether
  \<open>calloc\<close> succeeds. The result is the code, the handle's descriptor and the descriptors.
\<close>

definition sd_transport_connect ::
    "resolver \<Rightarrow> bool \<Rightarrow> bool \<Rightarrow> string option \<Rightarrow> 16 word \<Rightarrow> fd_table \<Rightarrow>
     sd_err \<times> nat option \<times> fd_table" where
  "sd_transport_connect resolve alloc out host port ft =
     (case host of None \<Rightarrow> (SD_ERR_INVALID, None, ft) | Some h \<Rightarrow>
      if \<not> out then (SD_ERR_INVALID, None, ft)
      else case resolve AF_UNSPEC h (port_str port) of
        None \<Rightarrow> (SD_ERR_IO, None, ft)
      | Some res \<Rightarrow>
          (case connect_loop res ft of
             (None, ft') \<Rightarrow> (SD_ERR_IO, None, ft')
           | (Some fd, ft') \<Rightarrow>
               (let ft' = set_io_timeouts fd ft'
                in if \<not> alloc then (SD_ERR_NO_MEM, None, os_close fd ft')
                   else (SD_OK, Some fd, ft'))))"

definition sd_transport_close :: "int option \<Rightarrow> fd_table \<Rightarrow> fd_table" where
  "sd_transport_close t ft =
     (case t of None \<Rightarrow> ft | Some fd \<Rightarrow> if fd \<ge> 0 then os_close (nat fd) ft else ft)"

definition sd_transport_wrap_fd :: "bool \<Rightarrow> int \<Rightarrow> int option" where
  "sd_transport_wrap_fd alloc fd = (if alloc then Some fd else None)"

section \<open>No descriptor is leaked\<close>

lemma connect_keeps:
  "connect_with_timeout fd ai ft = (rc, ft') \<Longrightarrow>
     open_fds ft' = open_fds ft \<and> next_fd ft' = next_fd ft \<and> grants ft' = grants ft \<and>
     waited ft' \<le> waited ft + SD_CONNECT_TIMEOUT_MS \<and>
     rcvtimeo (modes ft' fd) = rcvtimeo (modes ft fd) \<and> sndtimeo (modes ft' fd) = sndtimeo (modes ft fd)"
  by (auto simp: connect_with_timeout_def set_nonblock_def os_select_def SD_CONNECT_TIMEOUT_MS_def Let_def
      split: if_splits connect_answer.splits option.splits)

lemma timeouts_keep [simp]:
  "open_fds (set_io_timeouts fd ft) = open_fds ft" "next_fd (set_io_timeouts fd ft) = next_fd ft"
  "grants (set_io_timeouts fd ft) = grants ft" "waited (set_io_timeouts fd ft) = waited ft"
  by (simp_all add: set_io_timeouts_def Let_def)

text \<open>
  One attempt on a fresh descriptor that fails leaves the table as it was, up to modes and time.
\<close>

lemma failed_attempt:
  assumes "fds_ok ft" and "os_socket ft = (fd, ft1)" and "connect_with_timeout fd ai ft1 = (rc, ft2)"
  shows "open_fds ft2 = fd # open_fds ft" "fd \<notin> set (open_fds ft)" "grants ft2 = grants ft"
    "rcvtimeo (modes ft2 fd) = None" "sndtimeo (modes ft2 fd) = None"
    "waited ft2 \<le> waited ft + SD_CONNECT_TIMEOUT_MS" "open_fds (os_close fd ft2) = open_fds ft"
    "fds_ok (os_close fd ft2)" "grants (os_close fd ft2) = grants ft" "waited (os_close fd ft2) = waited ft2"
proof -
  have f: "fd = next_fd ft" "ft1 = snd (os_socket ft)" using assms(2) by (auto simp: os_socket_def)
  have lt: "x < next_fd ft" if "x \<in> set (open_fds ft)" for x using assms(1) that by (simp add: fds_ok_def)
  then show "fd \<notin> set (open_fds ft)" using f(1) by blast
  note k = connect_keeps [OF assms(3)]
  show o: "open_fds ft2 = fd # open_fds ft" and "grants ft2 = grants ft" "rcvtimeo (modes ft2 fd) = None"
    "sndtimeo (modes ft2 fd) = None" "waited ft2 \<le> waited ft + SD_CONNECT_TIMEOUT_MS"
    using k f by (simp_all add: os_socket_def)
  then show "open_fds (os_close fd ft2) = open_fds ft" using \<open>fd \<notin> set (open_fds ft)\<close> by (simp add: os_close_def)
  moreover have "next_fd (os_close fd ft2) = Suc (next_fd ft)" using k f by (simp add: os_close_def os_socket_def)
  ultimately show "fds_ok (os_close fd ft2)" using lt by (auto simp: fds_ok_def intro: less_SucI)
  show "grants (os_close fd ft2) = grants ft" "waited (os_close fd ft2) = waited ft2"
    using \<open>grants ft2 = grants ft\<close> by (simp_all add: os_close_def)
qed

lemma connect_loop_fds:
  "connect_loop ais ft = (r, ft') \<Longrightarrow> fds_ok ft \<Longrightarrow>
     grants ft' = grants ft \<and> waited ft' \<le> waited ft + SD_CONNECT_TIMEOUT_MS * length ais \<and>
     (r = None \<longrightarrow> open_fds ft' = open_fds ft) \<and>
     (\<forall>fd. r = Some fd \<longrightarrow> open_fds ft' = fd # open_fds ft \<and> fd \<notin> set (open_fds ft) \<and>
        rcvtimeo (modes ft' fd) = None \<and> sndtimeo (modes ft' fd) = None)"
proof (induction ais arbitrary: ft)
  case (Cons ai ais)
  show ?case
  proof (cases "ai_socket ai")
    case False
    then show ?thesis using Cons.IH [of ft] Cons.prems by (auto simp: algebra_simps)
  next
    case True
    obtain fd ft1 where s: "os_socket ft = (fd, ft1)" by (cases "os_socket ft")
    obtain rc ft2 where c: "connect_with_timeout fd ai ft1 = (rc, ft2)" by (cases "connect_with_timeout fd ai ft1")
    note a = failed_attempt [OF Cons.prems(2) s c]
    show ?thesis
    proof (cases "rc = 0")
      case True
      then show ?thesis using a Cons.prems(1) s c \<open>ai_socket ai\<close> by (auto simp: algebra_simps)
    next
      case False
      then have "connect_loop ais (os_close fd ft2) = (r, ft')" using Cons.prems(1) s c \<open>ai_socket ai\<close> by simp
      then show ?thesis using Cons.IH a(6-10) by (fastforce simp: algebra_simps)
    qed
  qed
qed simp

lemma connect_fds:
  assumes "fds_ok ft"
    and "sd_transport_connect resolve alloc out host port ft = (e, h, ft')"
  shows "(e = SD_OK \<longrightarrow> (\<exists>fd. h = Some fd \<and> open_fds ft' = fd # open_fds ft \<and>
            open_fds (sd_transport_close (Some (int fd)) ft') = open_fds ft))
       \<and> (e \<noteq> SD_OK \<longrightarrow> h = None \<and> open_fds ft' = open_fds ft)"
proof -
  have rm: "removeAll fd (fd # fds) = fds" if "fd \<notin> set fds" for fd :: nat and fds
    using that by simp
  show ?thesis
    using assms(2)
    by (auto simp: sd_transport_connect_def sd_transport_close_def os_close_def rm Let_def
        split: option.splits prod.splits if_splits dest!: connect_loop_fds [OF _ assms(1)])
qed

text \<open>
  C33: connecting opens exactly one descriptor, the new handle's, when it succeeds, and leaves
  no descriptor behind when it fails, whichever address or call failed; closing the handle
  releases it.
\<close>

theorem sd_transport_connect_fds:
  assumes "fds_ok ft"
    and "sd_transport_connect resolve alloc out host port ft = (e, h, ft')"
  shows "(e = SD_OK \<longrightarrow> (\<exists>fd. h = Some fd \<and> open_fds ft' = fd # open_fds ft \<and>
            open_fds (sd_transport_close (Some (int fd)) ft') = open_fds ft))
       \<and> (e \<noteq> SD_OK \<longrightarrow> h = None \<and> open_fds ft' = open_fds ft)"
  by (rule connect_fds [OF assms])

text \<open>A table with the standard streams, and an address that does not answer before one that does.\<close>

definition os_table :: fd_table where
  "os_table = \<lparr>next_fd = 3, open_fds = [1, 2], modes = (\<lambda>fd. \<lparr>nonblock = False, rcvtimeo = None, sndtimeo = None\<rparr>),
     grants = (\<lambda>fd. (True, True)), waited = 0\<rparr>"

definition silent_address :: address_env where
  "silent_address = \<lparr>ai_socket = True, ai_getfl = True, ai_setfl = True, ai_connect = In_progress,
     ai_select = Some 70000, ai_getsockopt = 0, ai_so_error = 0, ai_restore = True\<rparr>"

definition good_address :: address_env where
  "good_address = silent_address\<lparr>ai_connect := Connected\<rparr>"

lemmas sample_net = os_table_def silent_address_def good_address_def

lemma connect_second:
  "\<exists>ft'. sd_transport_connect (\<lambda>_ _ _. Some [silent_address, good_address]) True True (Some ''phone'') 8765 os_table =
     (SD_OK, Some 4, ft')"
  by (simp add: sd_transport_connect_def sample_net os_socket_def connect_with_timeout_def os_select_def
      set_nonblock_def os_close_def SD_CONNECT_TIMEOUT_MS_def Let_def)

lemma os_table_fine: "fds_ok os_table"
  by (simp add: fds_ok_def os_table_def)

theorem sd_transport_connect_fds_witness:
  "\<exists>ft'. sd_transport_connect (\<lambda>_ _ _. Some [silent_address, good_address]) True True (Some ''phone'') 8765 os_table =
     (SD_OK, Some 4, ft') \<and> open_fds ft' = [4, 1, 2] \<and> open_fds (sd_transport_close (Some 4) ft') = [1, 2]"
proof -
  obtain ft' where r: "sd_transport_connect (\<lambda>_ _ _. Some [silent_address, good_address]) True True (Some ''phone'') 8765
      os_table = (SD_OK, Some 4, ft')"
    using connect_second by blast
  from sd_transport_connect_fds [OF os_table_fine r] r show ?thesis by (simp add: os_table_def)
qed

text \<open>
  C34: connecting is bounded: at most five seconds per resolved address are spent waiting, and a
  connection that is handed out has both 15-second timeouts that the kernel grants, so a dead peer
  ends every later wait.
\<close>

theorem sd_transport_connect_bounded:
  assumes "fds_ok ft" and "resolve AF_UNSPEC host (port_str port) = Some ais"
    and "sd_transport_connect resolve alloc out (Some host) port ft = (e, h, ft')"
  shows "waited ft' \<le> waited ft + 5000 * length ais \<and>
    (\<forall>fd. h = Some fd \<longrightarrow>
       rcvtimeo (modes ft' fd) = (if fst (grants ft fd) then Some \<lparr>tv_sec = 15, tv_usec = 0\<rparr> else None) \<and>
       sndtimeo (modes ft' fd) = (if snd (grants ft fd) then Some \<lparr>tv_sec = 15, tv_usec = 0\<rparr> else None))"
proof (cases out)
  case True
  obtain r u where l: "connect_loop ais ft = (r, u)" by (cases "connect_loop ais ft")
  note k = connect_loop_fds [OF l assms(1)]
  have w: "waited (os_close fd t) = waited t" for fd t by (simp add: os_close_def)
  show ?thesis
  proof (cases r)
    case None
    then show ?thesis using assms(2,3) True l k by (auto simp: sd_transport_connect_def SD_CONNECT_TIMEOUT_MS_def)
  next
    case (Some fd)
    then show ?thesis
      using assms(2,3) True l k
      by (auto simp: sd_transport_connect_def SD_CONNECT_TIMEOUT_MS_def w Let_def split: if_splits)
        (simp_all add: set_io_timeouts_def SD_IO_TIMEOUT_MS_def Let_def)
  qed
qed (use assms(3) in \<open>simp add: sd_transport_connect_def\<close>)

theorem sd_transport_connect_bounded_witness:
  "\<exists>ft'. sd_transport_connect (\<lambda>_ _ _. Some [silent_address, good_address]) True True (Some ''phone'') 8765 os_table =
     (SD_OK, Some 4, ft') \<and> waited ft' \<le> 10000 \<and> rcvtimeo (modes ft' 4) = Some \<lparr>tv_sec = 15, tv_usec = 0\<rparr>"
proof -
  obtain ft' where r: "sd_transport_connect (\<lambda>_ _ _. Some [silent_address, good_address]) True True (Some ''phone'') 8765
      os_table = (SD_OK, Some 4, ft')"
    using connect_second by blast
  from sd_transport_connect_bounded [OF os_table_fine refl r] r show ?thesis by (simp add: os_table_def)
qed

text \<open>
  When the mode cannot be restored the connection is handed out all the same, and it does not block:
  the first read that finds no data ends in a timeout.
\<close>

lemma restore_ignored:
  "connect_with_timeout fd (good_address\<lparr>ai_restore := False\<rparr>) ft = (0, set_nonblock fd True ft)"
  by (simp add: connect_with_timeout_def good_address_def silent_address_def Let_def)

end
