(* ===== verification/Wifi.thy ===== *)
theory Wifi
  imports Connect
begin

text \<open>
  The Wi-Fi backend of the transport on the ESP32 (\<open>src/hal/esp32/transport_wifi.c\<close>) over LwIP's BSD
  sockets: connecting over the IPv4 addresses, the loops of send and receive, the release of a
  handle. The sockets and descriptors behave as the kernel of \<open>Transport\<close> and \<open>Connect\<close>; the
  backend is shown to do what the host's does.
\<close>

text \<open>The socket's mode, the bounded attempt and the loop over the addresses, as in the host backend.\<close>

definition WIFI_CONNECT_TIMEOUT_MS :: nat where "WIFI_CONNECT_TIMEOUT_MS = 5000"
definition WIFI_IO_TIMEOUT_MS :: nat where "WIFI_IO_TIMEOUT_MS = 15000"

definition wifi_set_io_timeouts :: "nat \<Rightarrow> fd_table \<Rightarrow> fd_table" where
  "wifi_set_io_timeouts fd ft =
     (let tv = \<lparr>tv_sec = WIFI_IO_TIMEOUT_MS div 1000, tv_usec = WIFI_IO_TIMEOUT_MS mod 1000 * 1000\<rparr>;
          m = modes ft fd;
          m = (if fst (grants ft fd) then m\<lparr>rcvtimeo := Some tv\<rparr> else m);
          m = (if snd (grants ft fd) then m\<lparr>sndtimeo := Some tv\<rparr> else m)
      in ft\<lparr>modes := (modes ft)(fd := m)\<rparr>)"

definition wifi_connect_with_timeout :: "nat \<Rightarrow> address_env \<Rightarrow> fd_table \<Rightarrow> int \<times> fd_table" where
  "wifi_connect_with_timeout fd ai ft =
     (let flags = nonblock (modes ft fd);
          done = (\<lambda>ft. (0, if ai_restore ai then set_nonblock fd flags ft else ft))
      in if \<not> ai_getfl ai \<or> \<not> ai_setfl ai then (-1, ft)
         else (let ft = set_nonblock fd True ft
               in case ai_connect ai of
                    Refused \<Rightarrow> (-1, ft)
                  | In_progress \<Rightarrow>
                      (case os_select (ai_select ai)
                              \<lparr>tv_sec = WIFI_CONNECT_TIMEOUT_MS div 1000, tv_usec = WIFI_CONNECT_TIMEOUT_MS mod 1000 * 1000\<rparr> ft of
                         (n, ft) \<Rightarrow>
                           if n \<le> 0 then (-1, ft)
                           else if ai_getsockopt ai < 0 \<or> ai_so_error ai \<noteq> 0 then (-1, ft)
                           else done ft)
                  | Connected \<Rightarrow> done ft))"

fun wifi_connect_loop :: "address_env list \<Rightarrow> fd_table \<Rightarrow> nat option \<times> fd_table" where
  "wifi_connect_loop [] ft = (None, ft)"
| "wifi_connect_loop (ai # ais) ft =
     (if \<not> ai_socket ai then wifi_connect_loop ais ft
      else (case os_socket ft of (fd, ft) \<Rightarrow>
            case wifi_connect_with_timeout fd ai ft of (rc, ft) \<Rightarrow>
              if rc = 0 then (Some fd, ft)
              else wifi_connect_loop ais (os_close fd ft)))"

definition wifi_transport_connect ::
    "resolver \<Rightarrow> bool \<Rightarrow> bool \<Rightarrow> string option \<Rightarrow> 16 word \<Rightarrow> fd_table \<Rightarrow>
     sd_err \<times> nat option \<times> fd_table" where
  "wifi_transport_connect resolve alloc out host port ft =
     (case host of None \<Rightarrow> (SD_ERR_INVALID, None, ft) | Some h \<Rightarrow>
      if \<not> out then (SD_ERR_INVALID, None, ft)
      else case resolve AF_INET h (port_str port) of
        None \<Rightarrow> (SD_ERR_IO, None, ft)
      | Some [] \<Rightarrow> (SD_ERR_IO, None, ft)
      | Some res \<Rightarrow>
          (case wifi_connect_loop res ft of
             (None, ft') \<Rightarrow> (SD_ERR_IO, None, ft')
           | (Some fd, ft') \<Rightarrow>
               (let ft' = wifi_set_io_timeouts fd ft'
                in if \<not> alloc then (SD_ERR_NO_MEM, None, os_close fd ft')
                   else (SD_OK, Some fd, ft'))))"

definition wifi_transport_send :: "sock option \<Rightarrow> span \<Rightarrow> sd_err \<times> sock option" where
  "wifi_transport_send t buf =
     (case t of None \<Rightarrow> (SD_ERR_INVALID, None)
      | Some c \<Rightarrow>
          if span_bad buf then (SD_ERR_INVALID, Some c)
          else (case send_loop (span_bytes buf) 0 (tx c) (wire c) of
                  (e, evs, out) \<Rightarrow> (e, Some (c\<lparr>tx := evs, wire := out\<rparr>))))"

definition wifi_transport_recv :: "sock option \<Rightarrow> bool \<Rightarrow> nat \<Rightarrow> sd_err \<times> byte list \<times> sock option" where
  "wifi_transport_recv t buf len =
     (case t of None \<Rightarrow> (SD_ERR_INVALID, [], None)
      | Some c \<Rightarrow>
          if \<not> buf \<and> len > 0 then (SD_ERR_INVALID, [], Some c)
          else (case recv_loop len [] (rx c) of (e, got, evs) \<Rightarrow> (e, got, Some (c\<lparr>rx := evs\<rparr>))))"

definition wifi_transport_close :: "int option \<Rightarrow> fd_table \<Rightarrow> fd_table" where
  "wifi_transport_close t ft =
     (case t of None \<Rightarrow> ft | Some fd \<Rightarrow> if fd \<ge> 0 then os_close (nat fd) ft else ft)"

definition wifi :: "sock option transport_ops" where
  "wifi = \<lparr>t_null = (\<lambda>t. t = None), t_send = wifi_transport_send,
           t_recv = (\<lambda>t n. wifi_transport_recv t True n)\<rparr>"

text \<open>
  The two backends behave alike on alike sockets, so the Wi-Fi backend meets the same contract; a
  failing connect leaves no descriptor open, a successful one exactly that of the handle.
\<close>

lemma wifi_send_eq: "wifi_transport_send t buf = sd_transport_send t buf"
  by (cases t) (auto simp: wifi_transport_send_def sd_transport_send_def)

lemma wifi_recv_eq: "wifi_transport_recv t buf len = sd_transport_recv t buf len"
  by (cases t) (auto simp: wifi_transport_recv_def sd_transport_recv_def)

lemma wifi_tcp: "wifi = tcp"
  by (simp add: wifi_def tcp_def wifi_send_eq [abs_def] wifi_recv_eq [abs_def])

interpretation wifi: transport_hal wifi tcp_incoming tcp_sent
  unfolding wifi_tcp by (rule tcp.transport_hal_axioms)

lemma wifi_timeouts: "WIFI_IO_TIMEOUT_MS = SD_IO_TIMEOUT_MS" "WIFI_CONNECT_TIMEOUT_MS = SD_CONNECT_TIMEOUT_MS"
  by (simp_all add: WIFI_IO_TIMEOUT_MS_def SD_IO_TIMEOUT_MS_def WIFI_CONNECT_TIMEOUT_MS_def SD_CONNECT_TIMEOUT_MS_def)

lemma wifi_connect_parts:
  "wifi_set_io_timeouts = set_io_timeouts" "wifi_connect_with_timeout = connect_with_timeout"
  by (intro ext, simp only: wifi_set_io_timeouts_def set_io_timeouts_def wifi_timeouts)
    (intro ext, simp only: wifi_connect_with_timeout_def connect_with_timeout_def wifi_timeouts)

lemma wifi_connect_loop_eq: "wifi_connect_loop = connect_loop"
proof (intro ext)
  show "wifi_connect_loop ais ft = connect_loop ais ft" for ais ft
    by (induction ais arbitrary: ft) (simp_all add: wifi_connect_parts split: prod.splits)
qed

lemmas wifi_connect_eqs = wifi_connect_parts wifi_connect_loop_eq

lemma wifi_connect_fds:
  assumes "fds_ok ft" and "wifi_transport_connect resolve alloc out host port ft = (e, h, ft')"
  shows "if e = SD_OK then \<exists>fd. h = Some fd \<and> open_fds ft' = fd # open_fds ft \<and> fd \<notin> set (open_fds ft) \<and>
      open_fds (wifi_transport_close (Some (int fd)) ft') = open_fds ft
    else h = None \<and> open_fds ft' = open_fds ft"
  using assms(2) unfolding wifi_transport_connect_def wifi_connect_eqs
  by (auto simp: wifi_transport_close_def os_close_def Let_def simp del: connect_loop.simps
      split: option.splits list.splits prod.splits if_splits dest!: connect_loop_fds [OF _ assms(1)])

text \<open>The Wi-Fi client behaves as the host client on a resolver that answers alike for both families.\<close>

lemma wifi_transport_connect_eq:
  "(\<And>h p. resolve AF_INET h p = resolve AF_UNSPEC h p) \<Longrightarrow>
   wifi_transport_connect resolve alloc out host port ft =
   sd_transport_connect resolve alloc out host port ft"
  unfolding wifi_transport_connect_def sd_transport_connect_def wifi_connect_eqs
  by (auto split: option.splits list.splits)

end
