(* ===== verification/Esp.thy ===== *)
theory Esp
  imports Turn Wifi
begin

text \<open>
  The ESP32 backends of the peripherals (\<open>src/hal/esp32/camera_esp.c\<close>, \<open>audio_esp.c\<close>,
  \<open>battery_esp.c\<close>, \<open>mic_esp.c\<close>): the drivers enabled by \<open>SUDONIT_CAMERA_DRIVER\<close> and
  \<open>SUDONIT_AUDIO_DRIVER\<close> and the stubs that replace them. The vendor's libraries
  (\<open>esp32-camera\<close>, the I2S driver) are parameters; the state records the calls that acquire and
  release their resources, so that the lemmas can balance them.
\<close>

section \<open>The vendor's drivers\<close>

text \<open>A frame buffer of the camera library; its data is not NULL.\<close>

record camera_fb =
  fb_buf :: "byte list"
  fb_width :: nat
  fb_height :: nat
  fb_format :: string

text \<open>The configurations handed to the libraries; their enumerations by name, \<open>-1\<close> for an unused pin.\<close>

record camera_config =
  pin_pwdn :: int
  pin_reset :: int
  pin_xclk :: int
  pin_sccb_sda :: int
  pin_sccb_scl :: int
  pin_d :: "int list"
  pin_vsync :: int
  pin_href :: int
  pin_pclk :: int
  xclk_freq_hz :: nat
  ledc :: "string \<times> string"
  pixel_format :: string
  frame_size :: string
  jpeg_quality :: nat
  fb_count :: nat
  fb_location :: string
  grab_mode :: string

record i2s_std_config =
  clk_rate :: u32
  slot_mono :: bool
  mclk :: int
  bclk :: int
  ws :: int
  dout :: int
  din :: int

text \<open>
  Each function answers from a state \<open>'d\<close> of the library: whether the call returned \<open>ESP_OK\<close>, the
  frame, or how many bytes were written. The last three are what the log prints of it: the code of the
  last \<open>esp_camera_init\<close>, the identity of the sensor that \<open>esp_camera_sensor_get\<close> found, and the code of
  the last write.
\<close>

record 'd drivers =
  esp_camera_init :: "'d \<Rightarrow> camera_config \<Rightarrow> bool \<times> 'd"
  esp_camera_fb_get :: "'d \<Rightarrow> camera_fb option \<times> 'd"
  esp_camera_fb_return :: "'d \<Rightarrow> camera_fb \<Rightarrow> 'd"
  i2s_new_channel :: "'d \<Rightarrow> bool \<times> 'd"
  i2s_channel_init_std_mode :: "'d \<Rightarrow> i2s_std_config \<Rightarrow> bool \<times> 'd"
  i2s_channel_enable :: "'d \<Rightarrow> bool \<times> 'd"
  i2s_channel_disable :: "'d \<Rightarrow> 'd"
  i2s_del_channel :: "'d \<Rightarrow> 'd"
  i2s_channel_write :: "'d \<Rightarrow> byte list \<Rightarrow> bool \<times> nat \<times> 'd"
  camera_code :: "'d \<Rightarrow> nat"
  sensor_pid :: "'d \<Rightarrow> nat option"
  i2s_code :: "'d \<Rightarrow> int"

text \<open>The resource calls: a frame taken and given back, a channel created and deleted, a write of
  so many bytes from a buffer of so many.\<close>

datatype drv_call = Fb_get | Fb_return | Chan_new | Chan_del | Chan_write nat nat

text \<open>
  The static variables of the two files, the calls made (last first), the lines logged, the
  libraries' state.
\<close>

record 'd esp =
  s_fb :: "camera_fb option"
  s_inited :: bool
  s_tx :: bool
  s_rate :: u32
  s_chans :: "8 word"
  calls :: "drv_call list"
  drv_log :: "log_line list"
  lib :: 'd

section \<open>The lines of the log\<close>

definition drv_say :: "sd_log_level \<Rightarrow> string \<Rightarrow> string \<Rightarrow> 'd esp \<Rightarrow> 'd esp" where
  "drv_say level tag msg h = h\<lparr>drv_log := drv_log h @ [(level, tag, msg)]\<rparr>"

text \<open>\<open>%x\<close> and \<open>%d\<close>.\<close>

fun hex_text :: "nat \<Rightarrow> string" where
  "hex_text n = (if n < 16 then [hex_digits ! n] else hex_text (n div 16) @ [hex_digits ! (n mod 16)])"

declare hex_text.simps [simp del]

definition int_text :: "int \<Rightarrow> string" where
  "int_text i = (if i < 0 then ''-'' @ decimal (nat (- i)) else decimal (nat i))"

definition camera_failed_text :: "nat \<Rightarrow> string" where
  "camera_failed_text err =
     ''esp_camera_init failed (0x'' @ hex_text err @ '') '' @ em_dash @ '' check pin map / PSRAM / wiring''"

definition sensor_text :: "nat \<Rightarrow> string" where
  "sensor_text pid = ''camera sensor PID=0x'' @ hex_text pid @ '' detected''"

definition i2s_up_text :: "u32 \<Rightarrow> 8 word \<Rightarrow> string" where
  "i2s_up_text rate ch = ''I2S TX up: '' @ decimal (unat rate) @ '' Hz, '' @ decimal (unat ch) @ '' ch''"

definition i2s_write_text :: "int \<Rightarrow> nat \<Rightarrow> nat \<Rightarrow> string" where
  "i2s_write_text err written n =
     ''I2S write failed ('' @ int_text err @ '', '' @ decimal written @ ''/'' @ decimal n @ '' bytes)''"

section \<open>Camera\<close>

text \<open>The pin map and the settings; \<open>pin_d\<close> lists D7 down to D0.\<close>

definition cam_config :: camera_config where
  "cam_config =
     \<lparr>pin_pwdn = -1, pin_reset = -1, pin_xclk = 15, pin_sccb_sda = 4, pin_sccb_scl = 5,
      pin_d = [16, 17, 18, 12, 10, 8, 9, 11], pin_vsync = 6, pin_href = 7, pin_pclk = 13,
      xclk_freq_hz = 20000000, ledc = (''LEDC_TIMER_0'', ''LEDC_CHANNEL_0''),
      pixel_format = ''PIXFORMAT_JPEG'', frame_size = ''FRAMESIZE_SVGA'', jpeg_quality = 12, fb_count = 1,
      fb_location = ''CAMERA_FB_IN_PSRAM'', grab_mode = ''CAMERA_GRAB_WHEN_EMPTY''\<rparr>"

definition esp_cam_init :: "'d drivers \<Rightarrow> 'd esp \<Rightarrow> sd_err \<times> 'd esp" where
  "esp_cam_init d h =
     (if s_inited h then (SD_OK, h)
      else (case esp_camera_init d (lib h) cam_config of (ok, l) \<Rightarrow>
              let h = h\<lparr>lib := l\<rparr>
              in if \<not> ok then (SD_ERR_IO, drv_say SD_LOG_ERROR ''camera_esp'' (camera_failed_text (camera_code d l)) h)
                 else (SD_OK, (case sensor_pid d l of None \<Rightarrow> h
                         | Some pid \<Rightarrow> drv_say SD_LOG_INFO ''camera_esp'' (sensor_text pid) h)\<lparr>s_inited := True\<rparr>)))"

definition esp_fb_return :: "'d drivers \<Rightarrow> camera_fb \<Rightarrow> 'd esp \<Rightarrow> 'd esp" where
  "esp_fb_return d fb h =
     h\<lparr>lib := esp_camera_fb_return d (lib h) fb, calls := Fb_return # calls h, s_fb := None\<rparr>"

definition esp_cam_capture :: "'d drivers \<Rightarrow> 'd esp \<Rightarrow> sd_image option \<Rightarrow> sd_err \<times> sd_image option \<times> 'd esp" where
  "esp_cam_capture d h out =
     (case out of None \<Rightarrow> (SD_ERR_INVALID, None, h)
      | Some img \<Rightarrow>
          if \<not> s_inited h then (SD_ERR_UNSUPPORTED, out, h)
          else if s_fb h \<noteq> None then (SD_ERR_INVALID, out, h)
          else (case esp_camera_fb_get d (lib h) of
                  (None, l) \<Rightarrow>
                    (SD_ERR_IO, out, drv_say SD_LOG_ERROR ''camera_esp'' ''esp_camera_fb_get returned NULL (capture failed)''
                      (h\<lparr>lib := l\<rparr>))
                | (Some fb, l) \<Rightarrow>
                    (let h = h\<lparr>lib := l, s_fb := Some fb, calls := Fb_get # calls h\<rparr>
                     in if fb_format fb \<noteq> ''PIXFORMAT_JPEG'' then (SD_ERR_IO, out, esp_fb_return d fb h)
                        else (SD_OK,
                          Some \<lparr>media_type = Some ''image/jpeg'', img_data = Mem (fb_buf fb),
                                img_width = of_nat (fb_width fb), img_height = of_nat (fb_height fb)\<rparr>, h))))"

definition esp_cam_release :: "'d drivers \<Rightarrow> 'd esp \<Rightarrow> sd_image option \<Rightarrow> sd_image option \<times> 'd esp" where
  "esp_cam_release d h img =
     (map_option (\<lambda>i. i\<lparr>img_data := Null 0\<rparr>) img,
      case s_fb h of None \<Rightarrow> h | Some fb \<Rightarrow> esp_fb_return d fb h)"

text \<open>The stub that is built without the driver.\<close>

definition stub_cam_init :: "'d esp \<Rightarrow> sd_err \<times> 'd esp" where
  "stub_cam_init h = (SD_OK, h)"

definition stub_cam_capture :: "'d esp \<Rightarrow> sd_image option \<Rightarrow> sd_err \<times> sd_image option \<times> 'd esp" where
  "stub_cam_capture h out = (SD_ERR_UNSUPPORTED, out, h)"

definition stub_cam_release :: "'d esp \<Rightarrow> sd_image option \<Rightarrow> sd_image option \<times> 'd esp" where
  "stub_cam_release h img = (img, h)"

section \<open>Audio\<close>

definition teardown :: "'d drivers \<Rightarrow> 'd esp \<Rightarrow> 'd esp" where
  "teardown d h =
     (if s_tx h
      then h\<lparr>lib := i2s_del_channel d (i2s_channel_disable d (lib h)), calls := Chan_del # calls h, s_tx := False\<rparr>
      else h)"

definition audio_config :: "u32 \<Rightarrow> 8 word \<Rightarrow> i2s_std_config" where
  "audio_config sample_rate channels =
     \<lparr>clk_rate = sample_rate, slot_mono = (channels = 1), mclk = -1, bclk = 42, ws = 41, dout = 40, din = -1\<rparr>"

text \<open>\<open>||\<close> enables the channel only when the mode was set.\<close>

definition esp_audio_init :: "'d drivers \<Rightarrow> 'd esp \<Rightarrow> u32 \<Rightarrow> 8 word \<Rightarrow> sd_err \<times> 'd esp" where
  "esp_audio_init d h sample_rate channels =
     (if sample_rate = 0 \<or> channels = 0 \<or> channels > 2 then (SD_ERR_INVALID, h)
      else if s_tx h \<and> sample_rate = s_rate h \<and> channels = s_chans h then (SD_OK, h)
      else (let h = teardown d h
            in case i2s_new_channel d (lib h) of (ok, l) \<Rightarrow>
                 if \<not> ok then (SD_ERR_IO, h\<lparr>lib := l\<rparr>)
                 else (let h = h\<lparr>lib := l, s_tx := True, calls := Chan_new # calls h\<rparr>
                       in case i2s_channel_init_std_mode d (lib h) (audio_config sample_rate channels) of (ok1, l1) \<Rightarrow>
                          case (if ok1 then i2s_channel_enable d l1 else (False, l1)) of (ok2, l2) \<Rightarrow>
                            (let h = h\<lparr>lib := l2\<rparr>
                             in if \<not> ok2
                                then (SD_ERR_IO, teardown d
                                  (drv_say SD_LOG_ERROR ''audio_esp'' (''I2S init failed '' @ em_dash @ '' check pins / clock'') h))
                                else (SD_OK, drv_say SD_LOG_INFO ''audio_esp'' (i2s_up_text sample_rate channels)
                                  (h\<lparr>s_rate := sample_rate, s_chans := channels\<rparr>))))))"

definition esp_play :: "'d drivers \<Rightarrow> 'd esp \<Rightarrow> span \<Rightarrow> nat \<Rightarrow> sd_err \<times> 'd esp" where
  "esp_play d h samples frame_count =
     (if (case samples of Null n \<Rightarrow> True | Mem bs \<Rightarrow> False) \<and> frame_count > 0 then (SD_ERR_INVALID, h)
      else if \<not> s_tx h then (SD_ERR_UNSUPPORTED, h)
      else if frame_count = 0 then (SD_OK, h)
      else (let bytes = frame_count * unat (s_chans h) * 2
            in case i2s_channel_write d (lib h) (take bytes (span_bytes samples)) of (ok, written, l) \<Rightarrow>
                 (let h = h\<lparr>lib := l, calls := Chan_write bytes (span_len samples) # calls h\<rparr>
                  in if \<not> ok \<or> written \<noteq> bytes
                     then (SD_ERR_IO, drv_say SD_LOG_ERROR ''audio_esp'' (i2s_write_text (i2s_code d l) written bytes) h)
                     else (SD_OK, h))))"

definition stub_audio_init :: "'d esp \<Rightarrow> u32 \<Rightarrow> 8 word \<Rightarrow> sd_err \<times> 'd esp" where
  "stub_audio_init h sample_rate channels =
     (if sample_rate = 0 \<or> channels = 0 then (SD_ERR_INVALID, h) else (SD_OK, h))"

definition stub_play :: "'d esp \<Rightarrow> span \<Rightarrow> nat \<Rightarrow> sd_err \<times> 'd esp" where
  "stub_play h samples frame_count = (SD_ERR_UNSUPPORTED, h)"

section \<open>Battery and microphone\<close>

definition esp_battery_init :: "'d esp \<Rightarrow> sd_err \<times> 'd esp" where
  "esp_battery_init h = (SD_OK, h)"

definition esp_battery_read :: "'d esp \<Rightarrow> sd_err \<times> 8 word" where
  "esp_battery_read h = (SD_ERR_UNSUPPORTED, 0)"

definition esp_mic_init :: "u32 \<Rightarrow> sd_err" where
  "esp_mic_init sample_rate = (if sample_rate = 0 then SD_ERR_INVALID else SD_OK)"

definition esp_mic_read :: "nat \<Rightarrow> sd_err" where
  "esp_mic_read max_frames = SD_ERR_UNSUPPORTED"

section \<open>The backend of a build\<close>

record build =
  SUDONIT_CAMERA_DRIVER :: bool
  SUDONIT_AUDIO_DRIVER :: bool

definition esp_camera_backend :: "build \<Rightarrow> string" where
  "esp_camera_backend b = (if SUDONIT_CAMERA_DRIVER b then ''ov5640'' else ''ov5640 (stub)'')"

definition esp_audio_backend :: "build \<Rightarrow> string" where
  "esp_audio_backend b = (if SUDONIT_AUDIO_DRIVER b then ''max98357a'' else ''max98357a (stub)'')"

definition esp_battery_backend :: string where
  "esp_battery_backend = ''adc-vbat (stub)''"

definition esp_mic_backend :: string where
  "esp_mic_backend = ''ics43434 (stub)''"

definition esp_hal :: "build \<Rightarrow> 'd drivers \<Rightarrow> 'd esp hal_ops" where
  "esp_hal b d =
     \<lparr>h_camera_name = esp_camera_backend b, h_battery_name = esp_battery_backend,
      h_camera_init = (if SUDONIT_CAMERA_DRIVER b then esp_cam_init d else stub_cam_init),
      h_battery_init = esp_battery_init, h_battery_read = esp_battery_read,
      h_capture = (\<lambda>h img. case (if SUDONIT_CAMERA_DRIVER b then esp_cam_capture d h (Some img)
                                 else stub_cam_capture h (Some img)) of (e, i, h') \<Rightarrow> (e, the i, h')),
      h_release = (\<lambda>h img. case (if SUDONIT_CAMERA_DRIVER b then esp_cam_release d h (Some img)
                                 else stub_cam_release h (Some img)) of (i, h') \<Rightarrow> (the i, h')),
      h_audio_init = (if SUDONIT_AUDIO_DRIVER b then esp_audio_init d else stub_audio_init),
      h_play = (if SUDONIT_AUDIO_DRIVER b then esp_play d else stub_play), h_log = drv_log\<rparr>"

section \<open>The contract\<close>

text \<open>
  The resources are balanced: the frames taken and not given back are the one \<open>s_fb\<close> holds, the
  channels created and not deleted the one behind \<open>s_tx\<close>.
\<close>

definition balanced :: "'d esp \<Rightarrow> bool" where
  "balanced h \<longleftrightarrow>
     count_list (calls h) Fb_get = count_list (calls h) Fb_return + (if s_fb h = None then 0 else 1) \<and>
     count_list (calls h) Chan_new = count_list (calls h) Chan_del + (if s_tx h then 1 else 0)"

definition esp_live :: "build \<Rightarrow> 'd esp \<Rightarrow> nat" where
  "esp_live b h = (if SUDONIT_CAMERA_DRIVER b \<and> s_fb h \<noteq> None then 1 else 0)"

lemma drv_say_simps [simp]:
  "s_fb (drv_say level tag msg h) = s_fb h" "s_inited (drv_say level tag msg h) = s_inited h"
  "s_tx (drv_say level tag msg h) = s_tx h" "s_rate (drv_say level tag msg h) = s_rate h"
  "s_chans (drv_say level tag msg h) = s_chans h" "calls (drv_say level tag msg h) = calls h"
  "lib (drv_say level tag msg h) = lib h"
  by (simp_all add: drv_say_def)

lemmas esp_camera_defs = esp_cam_init_def esp_cam_capture_def esp_cam_release_def esp_fb_return_def
  stub_cam_init_def stub_cam_capture_def stub_cam_release_def
lemmas esp_audio_defs = esp_audio_init_def esp_play_def stub_audio_init_def stub_play_def teardown_def

lemma esp_audio_frame:
  "esp_audio_init d h rate ch = (e, h') \<Longrightarrow> s_fb h' = s_fb h \<and> (balanced h \<longrightarrow> balanced h') \<and> (e = SD_OK \<longrightarrow> ch \<noteq> 0)"
  by (auto simp: esp_audio_defs balanced_def Let_def split: if_splits prod.splits)

interpretation esp: device_hal "esp_hal b d" "esp_live b" balanced for b d
proof unfold_locales
  fix h img img' h' assume "h_capture (esp_hal b d) h img = (SD_OK, img', h')"
  then show "esp_live b h' = Suc (esp_live b h) \<and> (balanced h \<longrightarrow> balanced h') \<and> (\<exists>d. img_data img' = Mem d)"
    by (auto simp: esp_hal_def esp_camera_defs esp_live_def balanced_def Let_def split: if_splits prod.splits option.splits)
next
  fix h img e img' h' assume "h_capture (esp_hal b d) h img = (e, img', h')" "e \<noteq> SD_OK"
  then show "esp_live b h' = esp_live b h \<and> (balanced h \<longrightarrow> balanced h')"
    by (auto simp: esp_hal_def esp_camera_defs esp_live_def balanced_def Let_def split: if_splits prod.splits option.splits)
next
  fix h img img' h' and bs assume "h_release (esp_hal b d) h img = (img', h')" "img_data img = Mem bs" "0 < esp_live b h"
  then show "esp_live b h' = esp_live b h - 1 \<and> (balanced h \<longrightarrow> balanced h') \<and> img_data img' = Null 0"
    by (auto simp: esp_hal_def esp_camera_defs esp_live_def balanced_def Let_def split: if_splits prod.splits option.splits)
next
  fix h rate ch e h' assume "h_audio_init (esp_hal b d) h rate ch = (e, h')"
  then show "esp_live b h' = esp_live b h \<and> (balanced h \<longrightarrow> balanced h') \<and> (e = SD_OK \<longrightarrow> ch \<noteq> 0)"
    using esp_audio_frame [of d h rate ch e h']
    by (auto simp: esp_hal_def esp_live_def stub_audio_init_def split: if_splits)
next
  fix h samples n e h' assume "h_play (esp_hal b d) h samples n = (e, h')"
  then show "esp_live b h' = esp_live b h \<and> (balanced h \<longrightarrow> balanced h')"
    by (auto simp: esp_hal_def esp_audio_defs esp_live_def balanced_def Let_def split: if_splits prod.splits span.splits)
next
  fix h e h' assume "h_camera_init (esp_hal b d) h = (e, h')"
  then show "esp_live b h' = esp_live b h \<and> (balanced h \<longrightarrow> balanced h')"
    by (auto simp: esp_hal_def esp_camera_defs esp_live_def balanced_def Let_def split: if_splits prod.splits option.splits)
qed (auto simp: esp_hal_def esp_battery_init_def esp_battery_read_def)

interpretation esp: device "esp_hal b d" "esp_live b" balanced wifi tcp_incoming tcp_sent for b d
  by (intro device.intro esp.device_hal_axioms wifi.transport_hal_axioms)

text \<open>The pins the two drivers use are pairwise different.\<close>

lemma pins_distinct:
  "distinct ([pin_xclk cam_config, pin_sccb_sda cam_config, pin_sccb_scl cam_config, pin_vsync cam_config,
     pin_href cam_config, pin_pclk cam_config] @ pin_d cam_config @
     [bclk (audio_config r c), ws (audio_config r c), dout (audio_config r c)])"
  by (simp add: cam_config_def audio_config_def)

section \<open>The downlink on the driver\<close>

context device
begin

text \<open>How far a downlink gets with the audio backend, and what it plays.\<close>

lemma downlink_outcomes:
  assumes "env_ok env" and "play_audio_downlink hal io env t json h = Some (e, t', h', ls)"
  shows "h' = h \<or> (\<exists>rate c. h_audio_init hal h rate (ucast (c :: u32)) = (e, h')) \<or>
    (\<exists>rate c h1 pcm n. h_audio_init hal h rate (ucast (c :: u32)) = (SD_OK, h1) \<and>
      h_play hal h1 (Mem pcm) (n div unat (2 * c)) = (e, h') \<and> n \<le> length pcm)"
proof -
  have len: "length (heap env n) = n" for n using assms(1) by (simp add: env_ok_def)
  have cap: "unat sz < 2 ^ 64" for sz :: u32
  proof -
    have "unat sz < 2 ^ LENGTH(32)" by (rule unsigned_less)
    then show ?thesis by simp
  qed
  define sz where "sz = the (snd (sd_json_get_uint (Some json) (Some ''size'') (Some 0)))"
  define c where "c = the (snd (sd_json_get_uint (Some json) (Some ''channels'') (Some 0)))"
  define rate where "rate = the (snd (sd_json_get_uint (Some json) (Some ''sample_rate'') (Some 0)))"
  define chunks where "chunks = the (snd (sd_json_get_uint (Some json) (Some ''chunks'') (Some 0)))"
  define sha where "sha = Some (cstr (the (snd (sd_json_get_string (Some json) (Some ''sha256'') (Some (sha_buf env))))))"
  define buf where "buf = heap env (if sz \<noteq> 0 then unat sz else 1)"
  have "unat sz \<le> length buf" by (simp add: buf_def len)
  then obtain e1 pcm t1 where body: "sd_msg_recv_audio_body io (al_frame env) t chunks sz sha (Some buf) (unat sz) = Some (e1, Some pcm, t1)"
      and l: "unat sz \<le> length pcm"
    using audio_body_safe [OF _ cap, of sz buf "al_frame env" t chunks sz sha] by force
  obtain e2 h1 where i: "h_audio_init hal h rate (ucast c) = (e2, h1)" by (cases "h_audio_init hal h rate (ucast c)")
  obtain e3 h2 where p: "h_play hal h1 (Mem pcm) (unat sz div unat (2 * c)) = (e3, h2)"
    by (cases "h_play hal h1 (Mem pcm) (unat sz div unat (2 * c))")
  have "h' = h \<or> (e = e2 \<and> h' = h1) \<or> (e2 = SD_OK \<and> e = e3 \<and> h' = h2)"
    using assms(2) body i p
    unfolding play_audio_downlink_def Let_def sz_def [symmetric] c_def [symmetric] rate_def [symmetric]
      chunks_def [symmetric] sha_def [symmetric] buf_def [symmetric]
    by (auto split: if_splits)
  then show ?thesis using i p l by blast
qed

end

lemma double_ge: "unat (ucast (c :: u32) :: 8 word) * 2 \<le> unat (2 * c)"
proof -
  have "unat (ucast c :: 8 word) = unat c mod 256" by (simp add: unsigned_ucast_eq take_bit_eq_mod)
  moreover have "unat (2 * c) = 2 * unat c mod 2 ^ 32" by (simp add: unat_word_ariths(2))
  moreover have "2 * unat c mod 2 ^ 32 = 2 * (unat c mod 2 ^ 31)"
    using mult_mod_right [of 2 "unat c" "2 ^ 31"] by simp
  moreover have "unat c mod 256 \<le> unat c mod 2 ^ 31"
    using mod_mod_cancel [of 256 "2 ^ 31" "unat c"] mod_less_eq_dividend [of "unat c mod 2 ^ 31" 256] by simp
  ultimately show ?thesis by simp
qed

definition writes_inside :: "drv_call list \<Rightarrow> bool" where
  "writes_inside cs \<longleftrightarrow> (\<forall>n m. Chan_write n m \<in> set cs \<longrightarrow> n \<le> m)"

lemma esp_audio_calls:
  assumes "esp_audio_init d h rate ch = (e, h')"
  shows "\<exists>new. calls h' = new @ calls h \<and> writes_inside new \<and> (e = SD_OK \<longrightarrow> s_chans h' = ch)"
proof -
  have "\<exists>new. calls h' = new @ calls h \<and> set new \<subseteq> {Chan_new, Chan_del} \<and> (e = SD_OK \<longrightarrow> s_chans h' = ch)"
    using assms by (auto simp: esp_audio_init_def teardown_def Let_def split: if_splits prod.splits)
  then show ?thesis by (auto simp: writes_inside_def)
qed

lemma esp_play_calls:
  assumes "esp_play d h (Mem pcm) n = (e, h')" "n * (unat (s_chans h) * 2) \<le> length pcm"
  shows "\<exists>new. calls h' = new @ calls h \<and> writes_inside new"
  using assms by (auto simp: esp_play_def writes_inside_def Let_def mult.assoc split: if_splits prod.splits)

lemma writes_inside_append: "writes_inside (a @ b) \<longleftrightarrow> writes_inside a \<and> writes_inside b"
  by (auto simp: writes_inside_def)

lemma esp_plays_inside:
  assumes a: "h_audio_init (esp_hal b d) h rate (ucast (c :: u32)) = (SD_OK, h1)"
    and p: "h_play (esp_hal b d) h1 (Mem pcm) (n div unat (2 * c)) = (e, h2)" and "n \<le> length pcm"
  shows "\<exists>new. calls h2 = new @ calls h \<and> writes_inside new"
proof (cases "SUDONIT_AUDIO_DRIVER b")
  case True
  then have "esp_audio_init d h rate (ucast c) = (SD_OK, h1)" "esp_play d h1 (Mem pcm) (n div unat (2 * c)) = (e, h2)"
    using a p by (simp_all add: esp_hal_def)
  moreover have "n div unat (2 * c) * (unat (ucast c :: 8 word) * 2) \<le> length pcm"
    using double_ge [of c] assms(3) by (meson div_times_less_eq_dividend le_trans mult_le_mono2)
  ultimately show ?thesis
    using esp_audio_calls [of d h rate "ucast c" SD_OK h1] esp_play_calls [of d h1 pcm "n div unat (2 * c)" e h2]
      writes_inside_append by (metis append_assoc)
next
  case False
  then show ?thesis
    using a p by (auto simp: esp_hal_def stub_audio_init_def stub_play_def writes_inside_def split: if_splits)
qed

text \<open>
  C16: on the ESP32 the amplifier is never handed more bytes than the received PCM buffer holds,
  whatever sample size, channel count (also one that is cut to 8 bits) and stream the peer sends.
\<close>

theorem esp_downlink_inside:
  assumes "env_ok env" and "play_audio_downlink (esp_hal b d) wifi env t json h = Some (e, t', h', ls)"
  shows "\<exists>new. calls h' = new @ calls h \<and> writes_inside new"
proof -
  have none: "\<exists>new. calls k = new @ calls k \<and> writes_inside new" for k :: "'a esp" by (simp add: writes_inside_def)
  consider "h' = h" | rate c where "h_audio_init (esp_hal b d) h rate (ucast (c :: u32)) = (e, h')"
    | rate c h1 pcm n where "h_audio_init (esp_hal b d) h rate (ucast (c :: u32)) = (SD_OK, h1)"
        "h_play (esp_hal b d) h1 (Mem pcm) (n div unat (2 * c)) = (e, h')" "n \<le> length pcm"
    using esp.downlink_outcomes [OF assms] by blast
  then show ?thesis
  proof cases
    case 1
    then show ?thesis using none by simp
  next
    case (2 rate c)
    then show ?thesis
      using esp_audio_calls [of d h rate "ucast c" e h'] none
      by (cases "SUDONIT_AUDIO_DRIVER b") (auto simp: esp_hal_def stub_audio_init_def split: if_splits)
  next
    case 3
    then show ?thesis using esp_plays_inside by blast
  qed
qed


section \<open>Witnesses\<close>

interpretation wifi: ready_link wifi tcp_incoming tcp_sent tcp_ready
  unfolding wifi_tcp by (rule tcp.ready_link_axioms)

interpretation esp: turn "esp_hal b d" "esp_live b" balanced wifi tcp_incoming tcp_sent tcp_ready for b d
  by (intro turn.intro esp.device_axioms wifi.ready_link_axioms)

text \<open>The static state at boot, and libraries that never fail.\<close>

definition esp_boot :: "'d \<Rightarrow> 'd esp" where
  "esp_boot l = \<lparr>s_fb = None, s_inited = False, s_tx = False, s_rate = 0, s_chans = 0, calls = [], drv_log = [], lib = l\<rparr>"

definition good_drivers :: "unit drivers" where
  "good_drivers =
     \<lparr>esp_camera_init = (\<lambda>l c. (True, l)),
      esp_camera_fb_get = (\<lambda>l. (Some \<lparr>fb_buf = [0xFF, 0xD8], fb_width = 800, fb_height = 600, fb_format = ''PIXFORMAT_JPEG''\<rparr>, l)),
      esp_camera_fb_return = (\<lambda>l fb. l), i2s_new_channel = (\<lambda>l. (True, l)),
      i2s_channel_init_std_mode = (\<lambda>l c. (True, l)), i2s_channel_enable = (\<lambda>l. (True, l)),
      i2s_channel_disable = (\<lambda>l. l), i2s_del_channel = (\<lambda>l. l),
      i2s_channel_write = (\<lambda>l bs. (True, length bs, l)), camera_code = (\<lambda>l. 0), sensor_pid = (\<lambda>l. Some 0x5640),
      i2s_code = (\<lambda>l. 0)\<rparr>"

definition full_build :: build where
  "full_build = \<lparr>SUDONIT_CAMERA_DRIVER = True, SUDONIT_AUDIO_DRIVER = True\<rparr>"

definition speech_sock :: sock where
  "speech_sock = \<lparr>rx = [Rx_data (encode_all SD_KIND_BINARY (numbered 0 (chunked [1, 2, 3, 4])) @
     encode_frame SD_KIND_JSON [0x7B])], tx = [], wire = []\<rparr>"

theorem esp_downlink_inside_witness:
  "\<exists>e t' h' ls new. play_audio_downlink (esp_hal full_build good_drivers) wifi sample_env (Some speech_sock)
      (json_object speech_fields) (esp_boot ()) = Some (e, t', h', ls) \<and>
    calls h' = new @ calls (esp_boot ()) \<and> writes_inside new \<and> Chan_write 4 4 \<in> set (calls h')"
proof -
  have "stream (rx speech_sock) = encode_all SD_KIND_BINARY (numbered 0 (chunked [1, 2, 3, 4])) @
      encode_frame SD_KIND_JSON [0x7B] @ []"
    by (simp add: speech_sock_def encode_frame_def)
  then obtain t' where r: "play_audio_downlink (esp_hal full_build good_drivers) wifi sample_env (Some speech_sock)
      (json_object speech_fields) (esp_boot ()) =
      Some (case played (esp_hal full_build good_drivers) (esp_boot ()) [1, 2, 3, 4] 24000 1 of (err, h') \<Rightarrow>
        (err, t', h', played_log (esp_hal full_build good_drivers) (esp_boot ()) [1, 2, 3, 4] 24000 1))"
    using esp.downlink_plays [OF sample_env_ok _ _ speech_announced, of "Some speech_sock" "[0x7B]" "[]" full_build good_drivers "esp_boot ()"]
    by (auto simp: wifi_tcp SD_CHUNK_SIZE_def)
  have "\<exists>h'. played (esp_hal full_build good_drivers) (esp_boot ()) [1, 2, 3, 4] 24000 1 = (SD_OK, h') \<and>
      calls h' = [Chan_write 4 4, Chan_new]"
    by (simp add: played_def esp_hal_def full_build_def good_drivers_def esp_boot_def esp_audio_defs Let_def)
  then obtain h' ls where p: "play_audio_downlink (esp_hal full_build good_drivers) wifi sample_env (Some speech_sock)
      (json_object speech_fields) (esp_boot ()) = Some (SD_OK, t', h', ls)" "Chan_write 4 4 \<in> set (calls h')"
    using r by auto
  from esp_downlink_inside [OF sample_env_ok p(1)] p show ?thesis by blast
qed


end
