(* ===== verification/Net.thy ===== *)
theory Net
  imports Config
begin

text \<open>
  Wi-Fi bring-up on the ESP32 (\<open>src/hal/esp32/net_esp.c\<close>): the event handler with its bounded
  retries, the start that waits for its verdict, the stop, and what they log. The vendor's calls are parameters;
  the events the system delivers are lists.
\<close>

section \<open>The code\<close>

definition NET_MAX_RETRY :: nat where "NET_MAX_RETRY = 5"

datatype net_event = STA_START | STA_DISCONNECTED | STA_GOT_IP | Other_event

text \<open>\<open>wifi_cfg.sta\<close>: 32 bytes of SSID and 64 of password.\<close>

record wifi_sta =
  sta_ssid :: "char list"
  sta_password :: "char list"

text \<open>
  The library calls, each with whether it returned \<open>ESP_OK\<close> (or a group); the results the code
  ignores are left out. \<open>ip_text\<close> is the address of an \<open>IP_EVENT_STA_GOT_IP\<close> event in the format \<open>IPSTR\<close>.
\<close>

record 'n netlib =
  xEventGroupCreate :: "'n \<Rightarrow> bool \<times> 'n"
  esp_netif_init :: "'n \<Rightarrow> bool \<times> 'n"
  esp_event_loop_create_default :: "'n \<Rightarrow> bool \<times> 'n"
  esp_wifi_init :: "'n \<Rightarrow> bool \<times> 'n"
  esp_wifi_set_mode :: "'n \<Rightarrow> bool \<times> 'n"
  esp_wifi_set_config :: "'n \<Rightarrow> wifi_sta \<Rightarrow> bool \<times> 'n"
  esp_wifi_start :: "'n \<Rightarrow> bool \<times> 'n"
  esp_wifi_connect :: "'n \<Rightarrow> 'n"
  esp_wifi_disconnect :: "'n \<Rightarrow> 'n"
  esp_wifi_stop :: "'n \<Rightarrow> 'n"
  ip_text :: "'n \<Rightarrow> string"

text \<open>
  The static variables: the event group (\<open>None\<close> for NULL) with \<open>NET_CONNECTED_BIT\<close> and
  \<open>NET_FAILED_BIT\<close>, the retries, the started flag; whether the handler is registered, how often
  it asked for a connection, the lines logged, and the library's state.
\<close>

record 'n net =
  s_net_events :: "(bool \<times> bool) option"
  s_retries :: nat
  s_started :: bool
  registered :: bool
  connects :: nat
  net_log :: "log_line list"
  nlib :: 'n

definition net_boot :: "'n \<Rightarrow> 'n net" where
  "net_boot l = \<lparr>s_net_events = None, s_retries = 0, s_started = False, registered = False, connects = 0, net_log = [], nlib = l\<rparr>"

definition net_say :: "sd_log_level \<Rightarrow> string \<Rightarrow> 'n net \<Rightarrow> 'n net" where
  "net_say level msg s = s\<lparr>net_log := net_log s @ [(level, ''net_esp'', msg)]\<rparr>"

definition ask_connect :: "'n netlib \<Rightarrow> 'n net \<Rightarrow> 'n net" where
  "ask_connect L s = s\<lparr>nlib := esp_wifi_connect L (nlib s), connects := Suc (connects s)\<rparr>"

text \<open>\<open>xEventGroupSetBits\<close>; \<open>None\<close> is the undefined behaviour of a NULL group.\<close>

definition set_bits :: "bool \<times> bool \<Rightarrow> 'n net \<Rightarrow> 'n net option" where
  "set_bits b s =
     (case s_net_events s of None \<Rightarrow> None
      | Some (c, f) \<Rightarrow> Some (s\<lparr>s_net_events := Some (c \<or> fst b, f \<or> snd b)\<rparr>))"

definition retry_text :: "nat \<Rightarrow> string" where
  "retry_text n = ''Wi-Fi disconnected; retry '' @ decimal n @ ''/'' @ decimal NET_MAX_RETRY"

fun net_event_handler :: "'n netlib \<Rightarrow> 'n net \<Rightarrow> net_event \<Rightarrow> 'n net option" where
  "net_event_handler L s STA_START = Some (ask_connect L s)"
| "net_event_handler L s STA_DISCONNECTED =
     (if s_retries s < NET_MAX_RETRY then
        Some (ask_connect L (net_say SD_LOG_WARN (retry_text (Suc (s_retries s))) (s\<lparr>s_retries := Suc (s_retries s)\<rparr>)))
      else set_bits (False, True) s)"
| "net_event_handler L s STA_GOT_IP = 
     set_bits (True, False) ((net_say SD_LOG_INFO (''got IP '' @ ip_text L (nlib s)) s)\<lparr>s_retries := 0\<rparr>)"
| "net_event_handler L s Other_event = Some s"

text \<open>\<open>xEventGroupWaitBits\<close> for either bit: the events that arrive before the timeout.\<close>

fun net_wait :: "'n netlib \<Rightarrow> 'n net \<Rightarrow> net_event list \<Rightarrow> 'n net option" where
  "net_wait L s [] = Some s"
| "net_wait L s (ev # evs) =
     (case s_net_events s of
        None \<Rightarrow> None
      | Some (c, f) \<Rightarrow>
          if c \<or> f then Some s
          else (case net_event_handler L s ev of None \<Rightarrow> None | Some s \<Rightarrow> net_wait L s evs))"

text \<open>\<open>strncpy\<close> of at most \<open>n - 1\<close> characters into a zeroed array of \<open>n\<close>.\<close>

definition strncpy_field :: "nat \<Rightarrow> string \<Rightarrow> char list" where
  "strncpy_field n s = (let w = take (n - 1) s in w @ replicate (n - length w) NUL)"

definition sta_config :: "sd_config \<Rightarrow> wifi_sta" where
  "sta_config cfg =
     \<lparr>sta_ssid = strncpy_field 32 (cstr (wifi_ssid cfg)), sta_password = strncpy_field 64 (cstr (wifi_password cfg))\<rparr>"

text \<open>A call whose failure ends the start, in the short-circuit order of the code.\<close>

definition try_call :: "('n \<Rightarrow> bool \<times> 'n) \<Rightarrow> bool \<times> 'n net \<Rightarrow> bool \<times> 'n net" where
  "try_call f r = (case r of (ok, s) \<Rightarrow>
     if ok then (case f (nlib s) of (ok', l) \<Rightarrow> (ok', s\<lparr>nlib := l\<rparr>)) else (False, s))"

text \<open>
  The result is the error code and the state, \<open>None\<close> for undefined behaviour; \<open>evs\<close> are the events
  of the 15 seconds the call waits.
\<close>

definition no_ssid_text :: string where
  "no_ssid_text =
     ''no Wi-Fi SSID configured '' @ em_dash @ '' provision before starting network''"

text \<open>The password enters only as whether it is set.\<close>

definition starting_text :: "sd_config \<Rightarrow> string" where
  "starting_text cfg =
     ''starting Wi-Fi STA: ssid='' @ cstr (wifi_ssid cfg) @
     '' password='' @ (if wifi_password cfg ! 0 \<noteq> NUL then ''(set)'' else ''(unset)'')"

definition verdict_text :: "bool \<Rightarrow> string" where
  "verdict_text failed =
     ''Wi-Fi did not connect ('' @ (if failed then ''auth/assoc failed'' else ''timeout'') @ '')''"

text \<open>What the start makes of the bits it waited for.\<close>

definition net_verdict :: "'n net \<Rightarrow> sd_err \<times> 'n net" where
  "net_verdict s =
     (case the (s_net_events s) of (connected, failed) \<Rightarrow>
        if connected then (SD_OK, s) else (SD_ERR_IO, net_say SD_LOG_ERROR (verdict_text failed) s))"

definition sd_net_start :: "'n netlib \<Rightarrow> sd_config option \<Rightarrow> net_event list \<Rightarrow> 'n net \<Rightarrow> (sd_err \<times> 'n net) option" where
  "sd_net_start L cfg evs s =
     (case cfg of None \<Rightarrow> Some (SD_ERR_INVALID, s)
      | Some cfg \<Rightarrow>
          if wifi_ssid cfg ! 0 = NUL then Some (SD_ERR_INVALID, net_say SD_LOG_ERROR no_ssid_text s)
          else if s_started s then Some (SD_OK, s)
          else (case xEventGroupCreate L (nlib s) of (ok, l) \<Rightarrow>
            (let s = (net_say SD_LOG_INFO (starting_text cfg) s)\<lparr>nlib := l, s_net_events := (if ok then Some (False, False) else None)\<rparr>
             in if \<not> ok then Some (SD_ERR_NO_MEM, s)
                else (case try_call (esp_event_loop_create_default L) (try_call (esp_netif_init L) (True, s)) of
                        (ok, s) \<Rightarrow>
                          if \<not> ok then Some (SD_ERR_IO, s)
                          else (case try_call (esp_wifi_init L) (True, s) of (ok, s) \<Rightarrow>
                            if \<not> ok then Some (SD_ERR_IO, s)
                            else (case try_call (esp_wifi_start L)
                                    (try_call (\<lambda>l. esp_wifi_set_config L l (sta_config cfg))
                                      (try_call (esp_wifi_set_mode L) (True, s\<lparr>registered := True\<rparr>))) of (ok, s) \<Rightarrow>
                              if \<not> ok then Some (SD_ERR_IO, s)
                              else (case net_wait L (s\<lparr>s_started := True\<rparr>) evs of
                                      None \<Rightarrow> None
                                    | Some s \<Rightarrow>
                                        Some (net_verdict s))))))))"

definition sd_net_stop :: "'n netlib \<Rightarrow> 'n net \<Rightarrow> 'n net" where
  "sd_net_stop L s =
     (if \<not> s_started s then s
      else s\<lparr>nlib := esp_wifi_stop L (esp_wifi_disconnect L (nlib s)), s_started := False\<rparr>)"

definition esp_net_backend :: string where
  "esp_net_backend = ''esp32''"

text \<open>The host backend (\<open>src/hal/host/net_host.c\<close>) has nothing to bring up.\<close>

definition host_net_start :: "sd_config option \<Rightarrow> sd_err" where
  "host_net_start cfg = SD_OK"


section \<open>The verdict of the event stream\<close>

text \<open>
  Specification: with \<open>k\<close> retries used up, the stream brings the station online when an address
  arrives before the disconnects exhaust the remaining retries.
\<close>

definition online :: "nat \<Rightarrow> net_event list \<Rightarrow> bool" where
  "online k evs \<longleftrightarrow> (\<exists>pre post. evs = pre @ STA_GOT_IP # post \<and> STA_GOT_IP \<notin> set pre \<and>
     k + count_list pre STA_DISCONNECTED \<le> NET_MAX_RETRY)"

lemma online_Cons:
  "online k (ev # evs) \<longleftrightarrow>
     (if ev = STA_GOT_IP then k \<le> NET_MAX_RETRY
      else online (if ev = STA_DISCONNECTED then Suc k else k) evs)"
proof (cases "ev = STA_GOT_IP")
  case True
  then show ?thesis by (auto simp: online_def Cons_eq_append_conv)
next
  case False
  have "(\<exists>pre post. ev # evs = pre @ STA_GOT_IP # post \<and> P pre) \<longleftrightarrow>
      (\<exists>pre post. evs = pre @ STA_GOT_IP # post \<and> P (ev # pre))" for P
    using False by (auto simp: Cons_eq_append_conv)
  then show ?thesis using False by (simp add: online_def)
qed

lemma online_Nil [simp]: "\<not> online k []"
  by (simp add: online_def)

lemma online_exhausted: "NET_MAX_RETRY < k \<Longrightarrow> \<not> online k evs"
  by (simp add: online_def)

text \<open>What every event keeps once a group exists.\<close>

definition net_inv :: "'n net \<Rightarrow> bool" where
  "net_inv s \<longleftrightarrow> s_retries s \<le> NET_MAX_RETRY \<and> (s_started s \<longrightarrow> registered s)"

lemma net_say_simps [simp]:
  "s_net_events (net_say level msg s) = s_net_events s" "s_retries (net_say level msg s) = s_retries s"
  "s_started (net_say level msg s) = s_started s" "registered (net_say level msg s) = registered s"
  "connects (net_say level msg s) = connects s" "nlib (net_say level msg s) = nlib s"
  "net_inv (net_say level msg s) = net_inv s"
  by (simp_all add: net_say_def net_inv_def)

lemma net_verdict_eq:
  "s_net_events s = Some (c, f) \<Longrightarrow>
     net_verdict s = (if c then (SD_OK, s) else (SD_ERR_IO, net_say SD_LOG_ERROR (verdict_text f) s))"
  by (simp add: net_verdict_def)

lemma net_verdict_frame:
  "net_verdict s = (e, s') \<Longrightarrow>
     net_inv s' = net_inv s \<and> registered s' = registered s \<and> s_net_events s' = s_net_events s \<and> s_started s' = s_started s"
  by (auto simp: net_verdict_def split: prod.splits if_splits)

lemma handler_group:
  "s_net_events s \<noteq> None \<Longrightarrow> \<exists>s'. net_event_handler L s ev = Some s' \<and> s_net_events s' \<noteq> None"
  by (cases ev) (auto simp: set_bits_def ask_connect_def)

lemma handler_inv:
  "net_event_handler L s ev = Some s' \<Longrightarrow> net_inv s \<Longrightarrow>
     net_inv s' \<and> registered s' = registered s \<and> s_started s' = s_started s"
  by (cases ev) (auto simp: net_inv_def set_bits_def ask_connect_def split: if_splits option.splits)

lemma wait_frame:
  "net_wait L s evs = Some s' \<Longrightarrow> net_inv s \<Longrightarrow>
     net_inv s' \<and> registered s' = registered s \<and> s_started s' = s_started s"
proof (induction L s evs rule: net_wait.induct)
  case (2 L s ev evs)
  then show ?case
    using handler_inv [of L s ev] by (auto split: option.splits if_splits prod.splits)
qed simp

lemma wait_done: "s_net_events s = Some (c, f) \<Longrightarrow> c \<or> f \<Longrightarrow> net_wait L s evs = Some s"
  by (cases evs) auto

text \<open>The wait ends with the verdict, and asks for at most the remaining retries.\<close>

lemma wait_verdict:
  "s_net_events s = Some (False, False) \<Longrightarrow> s_retries s \<le> NET_MAX_RETRY \<Longrightarrow>
     \<exists>s' c f. net_wait L s evs = Some s' \<and> s_net_events s' = Some (c, f) \<and> (c \<longleftrightarrow> online (s_retries s) evs) \<and>
       connects s' \<le> connects s + count_list evs STA_START + (NET_MAX_RETRY - s_retries s)"
proof (induction evs arbitrary: s)
  case Nil
  then show ?case by (intro exI [of _ s] exI [of _ False]) simp
next
  case (Cons ev evs)
  show ?case
  proof (cases "ev = STA_GOT_IP \<or> ev = STA_DISCONNECTED \<and> s_retries s = NET_MAX_RETRY")
    case True
    define b where "b = (ev = STA_GOT_IP)"
    obtain u where u: "net_event_handler L s ev = Some u" "s_net_events u = Some (b, \<not> b)" "connects u = connects s"
      using True Cons.prems by (cases ev) (auto simp: set_bits_def b_def)
    have "net_wait L u evs = Some u" using wait_done [OF u(2)] by simp
    moreover have "b \<longleftrightarrow> online (s_retries s) (ev # evs)"
      using True Cons.prems(2) online_exhausted by (auto simp: online_Cons b_def)
    ultimately show ?thesis using u Cons.prems(1) by auto
  next
    case False
    define k where "k = (if ev = STA_DISCONNECTED then Suc (s_retries s) else s_retries s)"
    obtain u where u: "net_event_handler L s ev = Some u" "s_net_events u = Some (False, False)" "s_retries u = k"
        "k \<le> NET_MAX_RETRY" "connects u + (NET_MAX_RETRY - k) \<le> connects s + count_list [ev] STA_START + (NET_MAX_RETRY - s_retries s)"
      using False Cons.prems by (cases ev) (auto simp: ask_connect_def k_def)
    then obtain s' c f where w: "net_wait L u evs = Some s'" "s_net_events s' = Some (c, f)" "c \<longleftrightarrow> online k evs"
        "connects s' \<le> connects u + count_list evs STA_START + (NET_MAX_RETRY - k)"
      using Cons.IH [of u] by auto
    then show ?thesis using u Cons.prems(1) False by (auto simp: online_Cons k_def)
  qed
qed

section \<open>Properties of the bring-up\<close>

text \<open>A library whose calls all succeed.\<close>

definition all_ok :: "'n netlib \<Rightarrow> bool" where
  "all_ok L \<longleftrightarrow> (\<forall>l c. fst (xEventGroupCreate L l) \<and> fst (esp_netif_init L l) \<and> fst (esp_event_loop_create_default L l) \<and>
     fst (esp_wifi_init L l) \<and> fst (esp_wifi_set_mode L l) \<and> fst (esp_wifi_set_config L l c) \<and> fst (esp_wifi_start L l))"

lemma start_waits:
  assumes "all_ok L" and "wifi_ssid cfg ! 0 \<noteq> NUL" and "\<not> s_started s"
  obtains u where "s_net_events u = Some (False, False)" "s_retries u = s_retries s" "connects u = connects s"
    "s_started u" "registered u"
    "sd_net_start L (Some cfg) evs s = (case net_wait L u evs of None \<Rightarrow> None
       | Some s' \<Rightarrow> Some (net_verdict s'))"
proof -
  have ok: "\<exists>l'. f l = (True, l')" if "fst (f l)" for f :: "'a \<Rightarrow> bool \<times> 'a" and l
    using that by (metis eq_fst_iff)
  note a = assms(1) [unfolded all_ok_def, rule_format]
  obtain l1 where 1: "xEventGroupCreate L (nlib s) = (True, l1)" using ok a by blast
  obtain l2 where 2: "esp_netif_init L l1 = (True, l2)" using ok a by blast
  obtain l3 where 3: "esp_event_loop_create_default L l2 = (True, l3)" using ok a by blast
  obtain l4 where 4: "esp_wifi_init L l3 = (True, l4)" using ok a by blast
  obtain l5 where 5: "esp_wifi_set_mode L l4 = (True, l5)" using ok a by blast
  obtain l6 where 6: "esp_wifi_set_config L l5 (sta_config cfg) = (True, l6)"
    using ok [of "\<lambda>l. esp_wifi_set_config L l (sta_config cfg)" l5] a by blast
  obtain l7 where 7: "esp_wifi_start L l6 = (True, l7)" using ok a by blast
  show thesis
    by (rule that [of "(net_say SD_LOG_INFO (starting_text cfg) s)\<lparr>s_net_events := Some (False, False), registered := True,
        nlib := l7, s_started := True\<rparr>"])
      (use assms 1 2 3 4 5 6 7 in \<open>simp_all add: sd_net_start_def try_call_def\<close>)
qed

text \<open>
  C35: when the vendor's calls succeed, a start returns \<open>SD_OK\<close> exactly when the events of its wait
  bring the station online before the retries are exhausted, and it asks for a connection at most
  once per start event and five times more.
\<close>

theorem sd_net_start_verdict:
  assumes "all_ok L" and "wifi_ssid cfg ! 0 \<noteq> NUL" and "\<not> s_started s" and "s_retries s \<le> NET_MAX_RETRY"
  shows "\<exists>s'. sd_net_start L (Some cfg) evs s = Some (if online (s_retries s) evs then SD_OK else SD_ERR_IO, s') \<and>
    connects s' \<le> connects s + count_list evs STA_START + NET_MAX_RETRY"
proof -
  obtain u where u: "s_net_events u = Some (False, False)" "s_retries u = s_retries s" "connects u = connects s"
      "sd_net_start L (Some cfg) evs s = (case net_wait L u evs of None \<Rightarrow> None
        | Some s' \<Rightarrow> Some (net_verdict s'))"
    by (rule start_waits [OF assms(1-3), of evs])
  then show ?thesis using wait_verdict [of u L evs] assms(4) by (auto simp: net_verdict_eq)
qed

text \<open>
  The driver over time: boot, events once the handler is registered, starts and stops in any
  order. \<open>fresh L\<close> says that the system always has memory for an event group.
\<close>

inductive net_reach :: "'n netlib \<Rightarrow> 'n net \<Rightarrow> bool" for L where
  boot: "net_reach L (net_boot l)"
| event: "net_reach L s \<Longrightarrow> registered s \<Longrightarrow> net_event_handler L s ev = Some s' \<Longrightarrow> net_reach L s'"
| start: "net_reach L s \<Longrightarrow> sd_net_start L cfg evs s = Some (e, s') \<Longrightarrow> net_reach L s'"
| stop: "net_reach L s \<Longrightarrow> net_reach L (sd_net_stop L s)"

definition fresh :: "'n netlib \<Rightarrow> bool" where
  "fresh L \<longleftrightarrow> (\<forall>l. fst (xEventGroupCreate L l))"

lemma try_call_simps [simp]:
  "s_net_events (snd (try_call f r)) = s_net_events (snd r)" "s_retries (snd (try_call f r)) = s_retries (snd r)"
  "s_started (snd (try_call f r)) = s_started (snd r)" "registered (snd (try_call f r)) = registered (snd r)"
  by (auto simp: try_call_def split: prod.splits)

lemma try_call_frame:
  assumes "try_call f r = (ok, s')"
  shows "s_net_events s' = s_net_events (snd r)" "s_retries s' = s_retries (snd r)" "s_started s' = s_started (snd r)"
    "registered s' = registered (snd r)"
  using arg_cong [OF assms, of "\<lambda>x. s_net_events (snd x)"] arg_cong [OF assms, of "\<lambda>x. s_retries (snd x)"]
    arg_cong [OF assms, of "\<lambda>x. s_started (snd x)"] arg_cong [OF assms, of "\<lambda>x. registered (snd x)"] by simp_all

lemma wait_group: "s_net_events s \<noteq> None \<Longrightarrow> \<exists>s'. net_wait L s evs = Some s' \<and> s_net_events s' \<noteq> None"
proof (induction L s evs rule: net_wait.induct)
  case (2 L s ev evs)
  then show ?case using handler_group [of s L ev] by (auto split: option.splits)
qed simp

text \<open>A start either stops before the wait, with the variables known, or ends as its wait.\<close>

lemma start_cases:
  assumes "sd_net_start L cfg evs s = r"
  obtains (early) e where "r = Some (e, s)"
  | (no_ssid) "r = Some (SD_ERR_INVALID, net_say SD_LOG_ERROR no_ssid_text s)"
  | (no_group) s' where "r = Some (SD_ERR_NO_MEM, s')" "s_net_events s' = None" "s_retries s' = s_retries s"
      "s_started s' = s_started s" "registered s' = registered s" "\<not> fst (xEventGroupCreate L (nlib s))"
  | (failed) s' where "r = Some (SD_ERR_IO, s')" "s_net_events s' = Some (False, False)" "s_retries s' = s_retries s"
      "s_started s' = s_started s"
  | (waited) u where "s_net_events u = Some (False, False)" "s_retries u = s_retries s" "s_started u" "registered u"
      "r = (case net_wait L u evs of None \<Rightarrow> None
        | Some s' \<Rightarrow> Some (net_verdict s'))"
proof (cases "cfg = None \<or> wifi_ssid (the cfg) ! 0 = NUL \<or> s_started s")
  case True
  then have "(\<exists>e. r = Some (e, s)) \<or> r = Some (SD_ERR_INVALID, net_say SD_LOG_ERROR no_ssid_text s)"
    using assms by (auto simp: sd_net_start_def split: option.splits)
  then show thesis using early no_ssid by blast
next
  case False
  then obtain c where c: "cfg = Some c" "wifi_ssid c ! 0 \<noteq> NUL" "\<not> s_started s" by auto
  obtain ok l where g: "xEventGroupCreate L (nlib s) = (ok, l)" by (cases "xEventGroupCreate L (nlib s)")
  show thesis
  proof (cases ok)
    case False
    then show thesis
      using assms c g by (intro no_group [of "(net_say SD_LOG_INFO (starting_text c) s)\<lparr>nlib := l, s_net_events := None\<rparr>"]) (simp_all add: sd_net_start_def)
  next
    case True
    let ?s0 = "(net_say SD_LOG_INFO (starting_text c) s)\<lparr>nlib := l, s_net_events := Some (False, False)\<rparr>"
    obtain o1 s1 where 1: "try_call (esp_event_loop_create_default L) (try_call (esp_netif_init L) (True, ?s0)) = (o1, s1)"
      by (cases "try_call (esp_event_loop_create_default L) (try_call (esp_netif_init L) (True, ?s0))")
    obtain o2 s2 where 2: "try_call (esp_wifi_init L) (True, s1) = (o2, s2)"
      by (cases "try_call (esp_wifi_init L) (True, s1)")
    let ?r3 = "try_call (esp_wifi_start L) (try_call (\<lambda>l. esp_wifi_set_config L l (sta_config c))
      (try_call (esp_wifi_set_mode L) (True, s2\<lparr>registered := True\<rparr>)))"
    obtain o3 s3 where 3: "?r3 = (o3, s3)" by (cases ?r3)
    note frames = try_call_frame [OF 1] try_call_frame [OF 2] try_call_frame [OF 3]
    have r: "r = (if \<not> o1 then Some (SD_ERR_IO, s1) else if \<not> o2 then Some (SD_ERR_IO, s2)
        else if \<not> o3 then Some (SD_ERR_IO, s3)
        else (case net_wait L (s3\<lparr>s_started := True\<rparr>) evs of None \<Rightarrow> None
          | Some s' \<Rightarrow> Some (net_verdict s')))"
      using assms c g True 1 2 3 by (simp add: sd_net_start_def Let_def cong: if_cong)
    show thesis
    proof (cases "o1 \<and> o2 \<and> o3")
      case True
      then show thesis using r frames by (intro waited [of "s3\<lparr>s_started := True\<rparr>"]) simp_all
    next
      case False
      then show thesis
        using r frames by (intro failed [of "if \<not> o1 then s1 else if \<not> o2 then s2 else s3"]) auto
    qed
  qed
qed

lemma start_inv:
  assumes "sd_net_start L cfg evs s = Some (e, s')" and "net_inv s"
  shows "net_inv s'"
  using assms(1)
proof (cases rule: start_cases)
  case (waited u)
  then have "net_inv u" using assms(2) by (simp add: net_inv_def)
  obtain v where v: "net_wait L u evs = Some v" "net_verdict v = (e, s')"
    using waited(5) by (auto split: option.splits)
  show ?thesis using wait_frame [OF v(1) \<open>net_inv u\<close>] net_verdict_frame [OF v(2)] by simp
next
  case failed
  have "s_started s \<Longrightarrow> s = s'"
    using assms(1) failed by (auto simp: sd_net_start_def split: option.splits if_splits)
  then show ?thesis using failed assms(2) by (auto simp: net_inv_def)
qed (use assms(2) in \<open>auto simp: net_inv_def\<close>)

lemma start_group:
  assumes "sd_net_start L cfg evs s = Some (e, s')" and "fresh L" and "registered s \<longrightarrow> s_net_events s \<noteq> None"
  shows "registered s' \<longrightarrow> s_net_events s' \<noteq> None"
  using assms(1)
proof (cases rule: start_cases)
  case (waited u)
  then obtain v where v: "net_wait L u evs = Some v" "net_verdict v = (e, s')"
    by (auto split: option.splits)
  have "s_net_events v \<noteq> None" using wait_group [of u L evs] waited(1) v(1) by auto
  then show ?thesis using net_verdict_frame [OF v(2)] by simp
qed (use assms(2,3) in \<open>auto simp: fresh_def\<close>)

lemma reach_inv: "net_reach L s \<Longrightarrow> net_inv s \<and> (fresh L \<longrightarrow> registered s \<longrightarrow> s_net_events s \<noteq> None)"
proof (induction rule: net_reach.induct)
  case (event s ev s')
  then show ?case using handler_inv [of L s ev s'] handler_group [of s L ev] by auto
next
  case (start s cfg evs e s')
  then show ?case using start_inv start_group by blast
qed (auto simp: net_boot_def net_inv_def sd_net_stop_def)

text \<open>
  C36: in every history of events, starts and stops the retries never exceed five, and as long as
  event groups can be allocated no event makes the handler set a bit of a NULL group.
\<close>

theorem net_reach_safe:
  assumes "net_reach L s" and "fresh L" and "registered s"
  shows "s_retries s \<le> NET_MAX_RETRY \<and> (\<exists>s'. net_event_handler L s ev = Some s')"
  using reach_inv [OF assms(1)] assms(2,3) handler_group [of s L ev] by (auto simp: net_inv_def)

text \<open>
  C37: a start that times out leaves \<open>s_started\<close> set, so the next start reports success although the
  station never got an address.
\<close>

theorem sd_net_start_stale:
  assumes "all_ok L" and "wifi_ssid cfg ! 0 \<noteq> NUL" and "\<not> s_started s" and "s_retries s \<le> NET_MAX_RETRY"
    and "\<not> online (s_retries s) evs"
  shows "\<exists>s1. sd_net_start L (Some cfg) evs s = Some (SD_ERR_IO, s1) \<and>
    sd_net_start L (Some cfg) evs' s1 = Some (SD_OK, s1) \<and> \<not> fst (the (s_net_events s1))"
proof -
  obtain u where u: "s_net_events u = Some (False, False)" "s_retries u = s_retries s" "s_started u" "registered u"
      "sd_net_start L (Some cfg) evs s = (case net_wait L u evs of None \<Rightarrow> None
        | Some s' \<Rightarrow> Some (net_verdict s'))"
    by (rule start_waits [OF assms(1-3), of evs])
  obtain s1 f where w: "net_wait L u evs = Some s1" "s_net_events s1 = Some (False, f)"
    using wait_verdict [of u L evs] u(1,2) assms(4,5) by auto
  have "net_inv u" using u assms(4) by (simp add: net_inv_def)
  then have "s_started s1" using wait_frame [OF w(1)] u(3) by simp
  then show ?thesis using u(5) w assms(2) by (auto simp: sd_net_start_def net_verdict_eq)
qed

lemma cstr_strncpy: "0 < n \<Longrightarrow> nul_free w \<Longrightarrow> cstr (strncpy_field n w) = take (n - 1) w"
proof -
  assume n: "0 < n" "nul_free w"
  then obtain k where "n - length (take (n - 1) w) = Suc k" by (cases "n - length (take (n - 1) w)") auto
  then have "strncpy_field n w = take (n - 1) w @ NUL # replicate k NUL" by (simp add: strncpy_field_def Let_def)
  moreover have "nul_free (take (n - 1) w)" using n(2) by (auto simp: nul_free_def dest: in_set_takeD)
  ultimately show ?thesis by simp
qed

text \<open>
  An SSID of the 32 characters that the configuration accepts is handed to the driver without
  its last character.
\<close>

theorem sta_config_cuts_ssid:
  assumes "config_ok cfg" and "length (cstr (wifi_ssid cfg)) = SD_WIFI_SSID_MAX"
  shows "cstr (sta_ssid (sta_config cfg)) = butlast (cstr (wifi_ssid cfg)) \<and>
    cstr (sta_password (sta_config cfg)) = cstr (wifi_password cfg)"
proof -
  have "length (cstr (wifi_password cfg)) \<le> 63"
    using assms(1) field_ok_cstr [of SD_WIFI_PASS_MAX "wifi_password cfg"] by (simp add: config_ok_def field_sizes)
  then show ?thesis
    using assms(2) by (simp add: sta_config_def cstr_strncpy butlast_conv_take field_sizes)
qed

section \<open>Witnesses\<close>

text \<open>A library that always succeeds, and one whose memory runs out at the second group.\<close>

definition good_net :: "nat netlib" where
  "good_net =
     \<lparr>xEventGroupCreate = (\<lambda>n. (True, n)), esp_netif_init = (\<lambda>n. (True, n)),
      esp_event_loop_create_default = (\<lambda>n. (True, n)), esp_wifi_init = (\<lambda>n. (True, n)),
      esp_wifi_set_mode = (\<lambda>n. (True, n)), esp_wifi_set_config = (\<lambda>n c. (True, n)),
      esp_wifi_start = (\<lambda>n. (True, n)), esp_wifi_connect = Suc, esp_wifi_disconnect = (\<lambda>n. n), esp_wifi_stop = (\<lambda>n. n),
      ip_text = (\<lambda>n. ''192.168.4.2'')\<rparr>"

definition poor_net :: "nat netlib" where
  "poor_net = good_net\<lparr>xEventGroupCreate := (\<lambda>n. (n = 0, Suc n))\<rparr>"

definition home :: sd_config where
  "home = sd_config_defaults\<lparr>wifi_ssid := replicate 32 (CHR ''h'') @ [NUL]\<rparr>"

lemma good_net_ok: "all_ok good_net" "fresh good_net"
  by (simp_all add: all_ok_def fresh_def good_net_def)

lemma home_ssid: "wifi_ssid home ! 0 \<noteq> NUL"
  by (simp add: home_def nth_append)

lemma config_ok_home: "config_ok home"
  using config_ok_defaults by (simp add: home_def config_ok_def field_ok_def field_sizes nth_append)

text \<open>
  A second start without memory for its event group clears \<open>s_net_events\<close> while the handler of the
  first is still registered: the next address makes it set a bit of the NULL group.
\<close>

lemma null_group_reachable:
  "\<exists>s. net_reach poor_net s \<and> registered s \<and> net_event_handler poor_net s STA_GOT_IP = None"
proof -
  let ?s = "\<lparr>s_net_events = Some (False, False), s_retries = 0, s_started = True, registered = True, connects = 0,
    net_log = [(SD_LOG_INFO, ''net_esp'', starting_text home), (SD_LOG_ERROR, ''net_esp'', verdict_text False)], nlib = 1 :: nat\<rparr>"
  have "sd_net_start poor_net (Some home) [] (net_boot 0) = Some (SD_ERR_IO, ?s)"
    using home_ssid by (simp add: sd_net_start_def net_boot_def poor_net_def good_net_def try_call_def net_say_def net_verdict_def)
  then have "net_reach poor_net ?s" by (rule net_reach.start [OF net_reach.boot])
  then have "net_reach poor_net (sd_net_stop poor_net ?s)" by (rule net_reach.stop)
  moreover have "sd_net_start poor_net (Some home) [] (sd_net_stop poor_net ?s) =
      Some (SD_ERR_NO_MEM, ?s\<lparr>s_net_events := None, s_started := False, nlib := 2,
        net_log := net_log ?s @ [(SD_LOG_INFO, ''net_esp'', starting_text home)]\<rparr>)"
    using home_ssid by (simp add: sd_net_start_def sd_net_stop_def poor_net_def good_net_def net_say_def)
  ultimately have "net_reach poor_net (?s\<lparr>s_net_events := None, s_started := False, nlib := 2,
        net_log := net_log ?s @ [(SD_LOG_INFO, ''net_esp'', starting_text home)]\<rparr>)"
    by (rule net_reach.start)
  then show ?thesis
    by (intro exI [of _ "?s\<lparr>s_net_events := None, s_started := False, nlib := 2,
        net_log := net_log ?s @ [(SD_LOG_INFO, ''net_esp'', starting_text home)]\<rparr>"]) (simp add: set_bits_def)
qed

theorem sd_net_start_verdict_witness:
  "\<exists>s'. sd_net_start good_net (Some home) [STA_START, STA_DISCONNECTED, STA_GOT_IP] (net_boot 0) = Some (SD_OK, s') \<and>
    connects s' \<le> 6"
  using sd_net_start_verdict [OF good_net_ok(1) home_ssid, of "net_boot 0" "[STA_START, STA_DISCONNECTED, STA_GOT_IP]"]
  by (simp add: net_boot_def online_Cons NET_MAX_RETRY_def)

theorem net_reach_safe_witness:
  "\<exists>s. net_reach good_net s \<and> registered s \<and> s_retries s \<le> NET_MAX_RETRY \<and>
     (\<exists>s'. net_event_handler good_net s STA_DISCONNECTED = Some s')"
proof -
  let ?s = "\<lparr>s_net_events = Some (False, False), s_retries = 0, s_started = True, registered = True, connects = 0,
    net_log = [(SD_LOG_INFO, ''net_esp'', starting_text home), (SD_LOG_ERROR, ''net_esp'', verdict_text False)], nlib = 0 :: nat\<rparr>"
  have "sd_net_start good_net (Some home) [] (net_boot 0) = Some (SD_ERR_IO, ?s)"
    using home_ssid by (simp add: sd_net_start_def net_boot_def good_net_def try_call_def net_say_def net_verdict_def)
  then have r: "net_reach good_net ?s" by (rule net_reach.start [OF net_reach.boot])
  from net_reach_safe [OF this good_net_ok(2), of STA_DISCONNECTED] r show ?thesis
    by (intro exI [of _ ?s]) (simp del: net_event_handler.simps)
qed

theorem sd_net_start_stale_witness:
  "\<exists>s1. sd_net_start good_net (Some home) [STA_START] (net_boot 0) = Some (SD_ERR_IO, s1) \<and>
    sd_net_start good_net (Some home) [] s1 = Some (SD_OK, s1) \<and> \<not> fst (the (s_net_events s1))"
  by (rule sd_net_start_stale [OF good_net_ok(1) home_ssid]) (simp_all add: net_boot_def online_Cons)

theorem sta_config_cuts_ssid_witness:
  "cstr (sta_ssid (sta_config home)) = replicate 31 (CHR ''h'') \<and> cstr (wifi_ssid home) = replicate 32 (CHR ''h'')"
proof -
  have "nul_free (replicate 32 (CHR ''h''))" by (simp add: nul_free_def)
  then have c: "cstr (wifi_ssid home) = replicate 32 (CHR ''h'')" unfolding home_def by simp
  have "butlast (replicate 32 (CHR ''h'')) = replicate 31 (CHR ''h'')" by (simp add: butlast_conv_take)
  then show ?thesis
    using sta_config_cuts_ssid [OF config_ok_home] c by (simp only: length_replicate field_sizes)
qed

end
