(* ===== verification/Nvs.thy ===== *)
theory Nvs
  imports Config
begin

text \<open>
  The configuration store of the ESP32 (\<open>src/config/config_store_nvs.c\<close>) over the NVS library, which is
  a parameter; what the store relies on is \<open>nvs_documented\<close>, the library's documented behaviour.
\<close>

section \<open>The library\<close>

datatype esp_err = ESP_OK | ESP_ERR_NVS_NOT_FOUND | ESP_FAIL

text \<open>
  The calls on the namespace \<open>sudonit\<close> and the key \<open>config\<close>: opening for reading or writing, the
  size of the blob (\<open>nvs_get_blob\<close> with a NULL buffer), its bytes into a buffer of a size, setting
  and committing it.
\<close>

record 'n nvs_lib =
  nvs_open_ro :: "'n \<Rightarrow> esp_err"
  nvs_blob_size :: "'n \<Rightarrow> esp_err \<times> nat"
  nvs_get_blob :: "'n \<Rightarrow> nat \<Rightarrow> esp_err \<times> byte list"
  nvs_open_rw :: "'n \<Rightarrow> esp_err \<times> 'n"
  nvs_set_blob :: "'n \<Rightarrow> byte list \<Rightarrow> esp_err \<times> 'n"
  nvs_commit :: "'n \<Rightarrow> esp_err \<times> 'n"

text \<open>The calls on handles, in order: a successful open, a use, a close.\<close>

datatype nvs_call = Nvs_open | Nvs_use | Nvs_close

section \<open>The store\<close>

text \<open>
  \<open>buf\<close> and \<open>out_len\<close> only by their presence; the result has the bytes \<open>*out_len\<close> counts and the
  calls on handles.
\<close>

definition nvs_store_read :: "'n nvs_lib \<Rightarrow> 'n \<Rightarrow> bool \<Rightarrow> bool \<Rightarrow> nat \<Rightarrow> sd_err \<times> byte list \<times> nvs_call list" where
  "nvs_store_read L n buf out_len cap =
     (if \<not> buf \<or> \<not> out_len then (SD_ERR_INVALID, [], [])
      else (let e = nvs_open_ro L n
            in if e = ESP_ERR_NVS_NOT_FOUND then (SD_OK, [], [])
               else if e \<noteq> ESP_OK then (SD_ERR_IO, [], [])
               else (case nvs_blob_size L n of (e, required) \<Rightarrow>
                 if e = ESP_ERR_NVS_NOT_FOUND then (SD_OK, [], [Nvs_open, Nvs_use, Nvs_close])
                 else if e \<noteq> ESP_OK then (SD_ERR_IO, [], [Nvs_open, Nvs_use, Nvs_close])
                 else if required > cap then (SD_ERR_NO_MEM, [], [Nvs_open, Nvs_use, Nvs_close])
                 else (case nvs_get_blob L n required of (e, bs) \<Rightarrow>
                   if e \<noteq> ESP_OK then (SD_ERR_IO, [], [Nvs_open, Nvs_use, Nvs_use, Nvs_close])
                   else (SD_OK, bs, [Nvs_open, Nvs_use, Nvs_use, Nvs_close])))))"

definition nvs_store_write :: "'n nvs_lib \<Rightarrow> 'n \<Rightarrow> bool \<Rightarrow> byte list \<Rightarrow> sd_err \<times> 'n \<times> nvs_call list" where
  "nvs_store_write L n buf bs =
     (if \<not> buf \<and> length bs > 0 then (SD_ERR_INVALID, n, [])
      else (case nvs_open_rw L n of (e, n) \<Rightarrow>
        if e \<noteq> ESP_OK then (SD_ERR_IO, n, [])
        else (case nvs_set_blob L n bs of (e, n) \<Rightarrow>
          if e \<noteq> ESP_OK then (SD_ERR_IO, n, [Nvs_open, Nvs_use, Nvs_close])
          else (case nvs_commit L n of (e, n) \<Rightarrow>
            (if e \<noteq> ESP_OK then SD_ERR_IO else SD_OK, n, [Nvs_open, Nvs_use, Nvs_use, Nvs_close])))))"

text \<open>The blob of both callers is a local array, never NULL.\<close>

definition nvs_store :: "'n nvs_lib \<Rightarrow> 'n store_ops" where
  "nvs_store L =
     \<lparr>st_read = (\<lambda>n cap. case nvs_store_read L n True True cap of (e, bs, cs) \<Rightarrow> (e, bs)),
      st_write = (\<lambda>n bs. case nvs_store_write L n True bs of (e, n', cs) \<Rightarrow> (e, n'))\<rparr>"

section \<open>What the library promises\<close>

text \<open>
  \<open>held n\<close> is the blob of a partition and \<open>sound n\<close> that it can be read. A blob is found exactly when
  there is one, with its size and bytes, never more than asked for; opening for writing changes no
  blob; a set and a commit that succeed leave the new blob; one that fails leaves the old or the new one.
\<close>

definition nvs_documented :: "'n nvs_lib \<Rightarrow> ('n \<Rightarrow> byte list option) \<Rightarrow> ('n \<Rightarrow> bool) \<Rightarrow> bool" where
  "nvs_documented L held sound \<longleftrightarrow>
     (\<forall>n. sound n \<longrightarrow> (case held n of
        None \<Rightarrow> nvs_open_ro L n = ESP_ERR_NVS_NOT_FOUND \<or>
          nvs_open_ro L n = ESP_OK \<and> fst (nvs_blob_size L n) = ESP_ERR_NVS_NOT_FOUND
      | Some b \<Rightarrow> nvs_open_ro L n = ESP_OK \<and> nvs_blob_size L n = (ESP_OK, length b) \<and>
          nvs_get_blob L n (length b) = (ESP_OK, b))) \<and>
     (\<forall>n k. length (snd (nvs_get_blob L n k)) \<le> k) \<and>
     (\<forall>n e n'. nvs_open_rw L n = (e, n') \<longrightarrow> held n' = held n \<and> sound n' = sound n) \<and>
     (\<forall>n b e n'. nvs_set_blob L n b = (e, n') \<longrightarrow> sound n' = sound n \<and> held n' \<in> {held n, Some b}) \<and>
     (\<forall>n b n1 e n2. nvs_set_blob L n b = (ESP_OK, n1) \<longrightarrow> nvs_commit L n1 = (e, n2) \<longrightarrow>
        sound n2 = sound n \<and> held n2 \<in> (if e = ESP_OK then {Some b} else {held n, Some b}))"

text \<open>The store over such a library obeys the contract of the storage seam.\<close>

lemma nvs_write_result:
  assumes "nvs_documented L held sound" and "nvs_store_write L n True b = (e, n', cs)"
  shows "sound n' = sound n \<and> (if e = SD_OK then held n' = Some b else e = SD_ERR_IO \<and> held n' \<in> {held n, Some b})"
proof -
  obtain e1 n1 where o: "nvs_open_rw L n = (e1, n1)" by (cases "nvs_open_rw L n")
  obtain e2 n2 where s: "nvs_set_blob L n1 b = (e2, n2)" by (cases "nvs_set_blob L n1 b")
  obtain e3 n3 where c: "nvs_commit L n2 = (e3, n3)" by (cases "nvs_commit L n2")
  note d = assms(1) [unfolded nvs_documented_def]
  have 1: "held n1 = held n" "sound n1 = sound n" using d o by blast+
  have 2: "sound n2 = sound n1" "held n2 \<in> {held n1, Some b}" using d s by blast+
  have 3: "sound n3 = sound n1 \<and> held n3 \<in> (if e3 = ESP_OK then {Some b} else {held n1, Some b})" if "e2 = ESP_OK"
    using d s c that by blast
  consider "e1 \<noteq> ESP_OK" "e = SD_ERR_IO" "n' = n1" | "e2 \<noteq> ESP_OK" "e = SD_ERR_IO" "n' = n2"
    | "e2 = ESP_OK" "e = (if e3 \<noteq> ESP_OK then SD_ERR_IO else SD_OK)" "n' = n3"
    using assms(2) o s c by (auto simp: nvs_store_write_def split: if_splits)
  then show ?thesis using 1 2 3 by cases (auto split: if_splits)
qed

lemma nvs_read_result:
  assumes "nvs_documented L held sound" and "nvs_store_read L n True True cap = (e, bs, cs)"
  shows "length bs \<le> cap \<and> e \<in> {SD_OK, SD_ERR_IO, SD_ERR_NO_MEM} \<and>
    (sound n \<longrightarrow> (case held n of None \<Rightarrow> e = SD_OK \<and> bs = []
      | Some b \<Rightarrow> if length b \<le> cap then e = SD_OK \<and> bs = b else e = SD_ERR_NO_MEM))"
proof -
  note d = assms(1) [unfolded nvs_documented_def]
  have get: "length (snd (nvs_get_blob L n k)) \<le> k" for k using d by blast
  have fits: "length bs \<le> cap \<and> e \<in> {SD_OK, SD_ERR_IO, SD_ERR_NO_MEM}"
  proof -
    obtain e1 r where "nvs_blob_size L n = (e1, r)" by (cases "nvs_blob_size L n")
    moreover obtain e2 b where "nvs_get_blob L n r = (e2, b)" by (cases "nvs_get_blob L n r")
    moreover from this have "length b \<le> r" using get [of r] by simp
    ultimately show ?thesis using assms(2) by (auto simp: nvs_store_read_def Let_def split: if_splits)
  qed
  have s: "sound n \<longrightarrow> (case held n of
        None \<Rightarrow> nvs_open_ro L n = ESP_ERR_NVS_NOT_FOUND \<or>
          nvs_open_ro L n = ESP_OK \<and> fst (nvs_blob_size L n) = ESP_ERR_NVS_NOT_FOUND
      | Some b \<Rightarrow> nvs_open_ro L n = ESP_OK \<and> nvs_blob_size L n = (ESP_OK, length b) \<and>
          nvs_get_blob L n (length b) = (ESP_OK, b))" using d by blast
  show ?thesis
    using assms(2) fits s by (auto simp: nvs_store_read_def Let_def split: if_splits prod.splits option.splits)
qed

lemma nvs_config_store:
  assumes "nvs_documented L held sound"
  shows "config_store (nvs_store L) held sound"
proof
  fix s cap e bs assume "st_read (nvs_store L) s cap = (e, bs)"
  then show "length bs \<le> cap"
    using nvs_read_result [OF assms, of s cap] by (auto simp: nvs_store_def split: prod.splits)
next
  fix s cap
  show "fst (st_read (nvs_store L) s cap) \<in> {SD_OK, SD_ERR_IO, SD_ERR_NO_MEM}"
    using nvs_read_result [OF assms, of s cap] by (auto simp: nvs_store_def split: prod.splits)
next
  fix s cap assume "held s = None" "sound s"
  then show "st_read (nvs_store L) s cap = (SD_OK, [])"
    using nvs_read_result [OF assms, of s cap] by (auto simp: nvs_store_def split: prod.splits)
next
  fix s b cap assume "held s = Some b" "sound s" "length b \<le> cap"
  then show "st_read (nvs_store L) s cap = (SD_OK, b)"
    using nvs_read_result [OF assms, of s cap] by (auto simp: nvs_store_def split: prod.splits)
next
  fix s b cap assume "held s = Some b" "sound s" "cap < length b"
  then show "fst (st_read (nvs_store L) s cap) = SD_ERR_NO_MEM"
    using nvs_read_result [OF assms, of s cap] by (auto simp: nvs_store_def split: prod.splits)
next
  fix s b s' assume "st_write (nvs_store L) s b = (SD_OK, s')"
  then show "held s' = Some b \<and> (sound s' \<longleftrightarrow> sound s)"
    using nvs_write_result [OF assms, of s b] by (auto simp: nvs_store_def split: prod.splits)
next
  fix s b e s' assume "st_write (nvs_store L) s b = (e, s')" "e \<noteq> SD_OK"
  then show "e = SD_ERR_IO \<and> (sound s' \<longleftrightarrow> sound s) \<and>
      (held s' = held s \<or> (\<exists>k \<le> length b. held s' = Some (take k b)))"
    using nvs_write_result [OF assms, of s b] by (auto simp: nvs_store_def split: prod.splits if_splits)
qed

text \<open>
  C21: a configuration saved to NVS is loaded back field for field after the next boot; a save that
  fails leaves the previous configuration, the new one or the defaults.
\<close>

theorem sd_config_save_load_nvs:
  assumes "nvs_documented L held sound" and "sound n" and "config_ok d"
    and "sd_config_save (nvs_store L) n (Some d) = (e, n')"
  shows "if e = SD_OK then sd_config_load (nvs_store L) n' (Some c) = (SD_OK, Some d)
    else e = SD_ERR_IO \<and> (sd_config_load (nvs_store L) n' (Some c) = sd_config_load (nvs_store L) n (Some c) \<or>
      sd_config_load (nvs_store L) n' (Some c) \<in> {(SD_OK, Some d), (SD_OK, Some sd_config_defaults)})"
  by (rule config_store.load_after_save [OF nvs_config_store [OF assms(1)] assms(4,3,2)])

definition handles_ok :: "nvs_call list \<Rightarrow> bool" where
  "handles_ok cs \<longleftrightarrow> cs = [] \<or> (\<exists>us. cs = Nvs_open # us @ [Nvs_close] \<and> set us \<subseteq> {Nvs_use})"


text \<open>A partition that holds the blob of its last set, for the witness.\<close>

definition flash :: "byte list option nvs_lib" where
  "flash =
     \<lparr>nvs_open_ro = (\<lambda>n. if n = None then ESP_ERR_NVS_NOT_FOUND else ESP_OK),
      nvs_blob_size = (\<lambda>n. (if n = None then ESP_ERR_NVS_NOT_FOUND else ESP_OK, length (case n of None \<Rightarrow> [] | Some b \<Rightarrow> b))),
      nvs_get_blob = (\<lambda>n k. (ESP_OK, take k (case n of None \<Rightarrow> [] | Some b \<Rightarrow> b))),
      nvs_open_rw = (\<lambda>n. (ESP_OK, n)), nvs_set_blob = (\<lambda>n b. (ESP_OK, Some b)), nvs_commit = (\<lambda>n. (ESP_OK, n))\<rparr>"

lemma flash_documented: "nvs_documented flash id (\<lambda>n. True)"
  by (auto simp: nvs_documented_def flash_def split: option.splits)

theorem sd_config_save_load_nvs_witness:
  "\<exists>n'. sd_config_save (nvs_store flash) None (Some sd_config_defaults) = (SD_OK, n') \<and>
    sd_config_load (nvs_store flash) n' (Some sd_config_defaults) = (SD_OK, Some sd_config_defaults)"
proof -
  obtain n' where s: "sd_config_save (nvs_store flash) None (Some sd_config_defaults) = (SD_OK, n')"
    by (simp add: sd_config_save_def nvs_store_def nvs_store_write_def flash_def)
  from sd_config_save_load_nvs [OF flash_documented _ config_ok_defaults s, of sd_config_defaults] s
  show ?thesis by simp
qed

end
