(* ===== verification/Provisioning.thy ===== *)
theory Provisioning
  imports Config
begin

text \<open>
  The serial provisioning console (\<open>src/app/provisioning.c\<close>): a command processor over a session
  (the configuration in memory and the dirty flag) and the store, and the loop that feeds it
  the lines of a stream. The output sink is the list of the lines it receives.
\<close>

section \<open>The code\<close>

abbreviation BLANK :: char where "BLANK \<equiv> CHR '' ''"
abbreviation HT :: char where "HT \<equiv> CHR 0x09"
abbreviation LF :: char where "LF \<equiv> CHR 0x0A"
abbreviation CR :: char where "CR \<equiv> CHR 0x0D"

definition blank :: "char \<Rightarrow> bool" where
  "blank c \<longleftrightarrow> c = BLANK \<or> c = HT"

record session =
  cfg :: sd_config
  dirty :: bool

text \<open>
  The load's error code is ignored: the configuration is the defaults then. The only caller passes a
  session, never NULL.
\<close>

definition sd_provision_init :: "'s store_ops \<Rightarrow> 's \<Rightarrow> session \<Rightarrow> session" where
  "sd_provision_init st fs s =
     \<lparr>cfg = (case sd_config_load st fs (Some (cfg s)) of (err, c) \<Rightarrow> the c), dirty = False\<rparr>"

text \<open>A pointer into the line is what is left of it; the token is terminated in place.\<close>

definition next_token :: "string \<Rightarrow> string option \<times> string" where
  "next_token p =
     (let s = dropWhile blank p
      in if s = [] then (None, s)
         else (Some (takeWhile (\<lambda>c. \<not> blank c) s), tl (dropWhile (\<lambda>c. \<not> blank c) s)))"

definition emit_line :: "bool \<Rightarrow> string \<Rightarrow> string list" where
  "emit_line out line = (if out then [line] else [])"

text \<open>\<open>snprintf\<close> into a local buffer, as the string it holds afterwards.\<close>

definition print_to :: "nat \<Rightarrow> string \<Rightarrow> string" where
  "print_to cap s = cstr (snprintf_str (replicate cap NUL) s)"

definition emitf :: "bool \<Rightarrow> string \<Rightarrow> string \<Rightarrow> string list" where
  "emitf out key v =
     emit_line out (print_to 160 (key @ replicate (13 - length key) BLANK @ '' = '' @ v))"

definition cmd_show :: "sd_config \<Rightarrow> bool \<Rightarrow> string list" where
  "cmd_show c out =
     emitf out ''device_name'' (cstr (device_name c)) @
     emitf out ''wifi_ssid'' (if wifi_ssid c ! 0 \<noteq> NUL then cstr (wifi_ssid c) else ''(unset)'') @
     emitf out ''wifi_password'' (if wifi_password c ! 0 \<noteq> NUL then ''(set)'' else ''(unset)'') @
     emitf out ''server_host'' (if server_host c ! 0 \<noteq> NUL then cstr (server_host c) else ''(unset)'') @
     emitf out ''server_port'' (print_to 8 (decimal (unat (server_port c))))"

definition KEYS :: string where
  "KEYS = ''device_name | wifi_ssid | wifi_password | server_host | server_port''"

definition cmd_help :: "bool \<Rightarrow> string list" where
  "cmd_help out =
     emit_line out ''commands:'' @
     emit_line out ''  show                 print all settings (password masked)'' @
     emit_line out ''  get <key>            print one setting'' @
     emit_line out ''  set <key> <value>    change a setting (in memory)'' @
     emit_line out ''  save                 persist changes to storage'' @
     emit_line out (''  reset                restore defaults (then '' @ [CHR 0x27] @ ''save'' @ [CHR 0x27] @
       '' to persist)'') @
     emit_line out ''  help                 this help'' @
     emit_line out (print_to 160 (''keys: '' @ KEYS))"

definition quoted_save :: string where
  "quoted_save = ''(use '' @ [CHR 0x27] @ ''save'' @ [CHR 0x27] @ '' to persist)''"

definition trim_end :: "string \<Rightarrow> string" where
  "trim_end s = rev (dropWhile (\<lambda>c. c = LF \<or> c = CR \<or> c = BLANK \<or> c = HT) (rev s))"

text \<open>The branches \<open>get\<close>, \<open>set\<close>, \<open>save\<close> and \<open>reset\<close>; \<open>p\<close> is the line behind the command word.\<close>

definition cmd_get :: "session \<Rightarrow> string \<Rightarrow> bool \<Rightarrow> string list" where
  "cmd_get s p out =
     (case next_token p of
        (None, p) \<Rightarrow> emit_line out ''error: usage: get <key>''
      | (Some key, p) \<Rightarrow>
          if key = ''wifi_password'' then
            emit_line out (if wifi_password (cfg s) ! 0 \<noteq> NUL then ''(set)'' else ''(unset)'')
          else (case sd_config_get_field (Some (cfg s)) (Some key) (Some (replicate 128 NUL)) of (err, v) \<Rightarrow>
            if err \<noteq> SD_OK then emit_line out ''error: unknown key''
            else emit_line out (cstr (the v))))"

definition cmd_set :: "session \<Rightarrow> string \<Rightarrow> bool \<Rightarrow> session \<times> string list" where
  "cmd_set s p out =
     (case next_token p of (key, p) \<Rightarrow>
        let p = dropWhile blank p
        in case key of
             None \<Rightarrow> (s, emit_line out ''error: usage: set <key> <value>'')
           | Some key \<Rightarrow>
               if p = [] then (s, emit_line out ''error: usage: set <key> <value>'')
               else (case sd_config_set_field (Some (cfg s)) (Some key) (Some p) of (err, c) \<Rightarrow>
                 if err \<noteq> SD_OK
                 then (s\<lparr>cfg := the c\<rparr>, emit_line out ''error: invalid key or value'')
                 else (s\<lparr>cfg := the c, dirty := True\<rparr>,
                       if key = ''wifi_password''
                       then emit_line out (''ok: wifi_password updated '' @ quoted_save)
                       else emit_line out (print_to 160 (''ok: '' @ key @ '' set '' @ quoted_save)))))"

definition cmd_save :: "'s store_ops \<Rightarrow> session \<Rightarrow> bool \<Rightarrow> 's \<Rightarrow> session \<times> string list \<times> 's" where
  "cmd_save st s out fs =
     (case sd_config_save st fs (Some (cfg s)) of (err, fs') \<Rightarrow>
        if err \<noteq> SD_OK then (s, emit_line out ''error: failed to save'', fs')
        else (s\<lparr>dirty := False\<rparr>, emit_line out ''ok: saved'', fs'))"

definition cmd_reset :: "session \<Rightarrow> bool \<Rightarrow> session \<times> string list" where
  "cmd_reset s out =
     (s\<lparr>cfg := sd_config_defaults, dirty := True\<rparr>,
      emit_line out (''ok: configuration reset to defaults '' @ quoted_save))"

definition handle :: "'s store_ops \<Rightarrow> session \<Rightarrow> string \<Rightarrow> bool \<Rightarrow> 's \<Rightarrow> session \<times> string list \<times> 's" where
  "handle st s line out fs =
     (let buf = trim_end (take 255 line)
      in case next_token buf of
           (None, p) \<Rightarrow> (s, [], fs)
         | (Some cmd, p) \<Rightarrow>
             if cmd = ''help'' then (s, cmd_help out, fs)
             else if cmd = ''show'' then (s, cmd_show (cfg s) out, fs)
             else if cmd = ''get'' then (s, cmd_get s p out, fs)
             else if cmd = ''set'' then (case cmd_set s p out of (s', ls) \<Rightarrow> (s', ls, fs))
             else if cmd = ''save'' then cmd_save st s out fs
             else if cmd = ''reset'' then (case cmd_reset s out of (s', ls) \<Rightarrow> (s', ls, fs))
             else (s, emit_line out (''error: unknown command (type '' @ [CHR 0x27] @ ''help'' @ [CHR 0x27] @ '')''), fs))"

definition sd_provision_handle_line ::
    "'s store_ops \<Rightarrow> session option \<Rightarrow> string option \<Rightarrow> bool \<Rightarrow> 's
       \<Rightarrow> sd_err \<times> session option \<times> string list \<times> 's" where
  "sd_provision_handle_line st s line out fs =
     (case (s, line) of
        (Some s, Some line) \<Rightarrow> (case handle st s line out fs of (s', ls, fs') \<Rightarrow> (SD_OK, Some s', ls, fs'))
      | _ \<Rightarrow> (SD_ERR_INVALID, s, [], fs))"

text \<open>
  \<open>fgets(line, 256, in)\<close>: up to 255 characters, through the first newline; \<open>None\<close> at the end of
  the stream. The command processor sees the C string in \<open>line\<close>.
\<close>

definition fgets :: "nat \<Rightarrow> string \<Rightarrow> (string \<times> string) option" where
  "fgets n input =
     (if input = [] then None
      else (let l = takeWhile (\<lambda>c. c \<noteq> LF) input;
                k = min (n - 1) (if length l < length input then Suc (length l) else length l)
            in Some (take k input, drop k input)))"

definition file_sink :: "string list \<Rightarrow> string" where
  "file_sink ls = concat (map (\<lambda>l. l @ [LF]) ls)"

function repl_loop :: "'s store_ops \<Rightarrow> session \<Rightarrow> string \<Rightarrow> 's \<Rightarrow> session \<times> string \<times> 's" where
  "repl_loop st s input fs =
     (case fgets 256 input of
        None \<Rightarrow> (s, [], fs)
      | Some (line, rest) \<Rightarrow>
          (case handle st s (cstr line) True fs of (s1, ls, fs1) \<Rightarrow>
             (case repl_loop st s1 rest fs1 of (s2, text, fs2) \<Rightarrow> (s2, file_sink ls @ text, fs2))))"
  by pat_completeness auto
termination
  by (relation "measure (\<lambda>(st, s, input, fs). length input)")
    (auto simp: fgets_def Let_def min_def split: if_splits)

declare repl_loop.simps [simp del]

text \<open>The greeting has an em dash in UTF-8.\<close>

definition greeting :: string where
  "greeting = ''sudonit provisioning console '' @ em_dash @ '' type '' @
     [CHR 0x27] @ ''help'' @ [CHR 0x27, LF]"

definition sd_provision_repl :: "'s store_ops \<Rightarrow> session \<Rightarrow> string \<Rightarrow> 's \<Rightarrow> session \<times> string \<times> 's" where
  "sd_provision_repl st s0 input fs =
     (case repl_loop st (sd_provision_init st fs s0) input fs of (s, text, fs') \<Rightarrow>
        (s, greeting @ text, fs'))"

section \<open>Tokens and lines\<close>

lemma nul_free_sub: "set a \<subseteq> set b \<Longrightarrow> nul_free b \<Longrightarrow> nul_free a"
  by (auto simp: nul_free_def)

lemma set_dropWhile_sub: "set (dropWhile P s) \<subseteq> set s"
  by (auto dest: set_dropWhileD)

lemma next_token_set:
  "next_token p = (k, r) \<Longrightarrow> set r \<subseteq> set p \<and> (\<forall>t. k = Some t \<longrightarrow> set t \<subseteq> set p)"
proof -
  assume a: "next_token p = (k, r)"
  let ?s = "dropWhile blank p"
  have "set (tl xs) \<subseteq> set xs" for xs :: string by (cases xs) auto
  note this [of "dropWhile (\<lambda>c. \<not> blank c) ?s"]
  moreover have "set (takeWhile (\<lambda>c. \<not> blank c) ?s) \<subseteq> set ?s"
    by (auto dest: set_takeWhileD)
  ultimately show ?thesis
    using a set_dropWhile_sub [of blank p] set_dropWhile_sub [of "\<lambda>c. \<not> blank c" ?s]
    by (auto simp: next_token_def Let_def split: if_splits)
qed

lemma trim_end_set: "set (trim_end s) \<subseteq> set s"
  by (auto simp: trim_end_def dest: set_dropWhileD)

lemma nul_free_line: "nul_free line \<Longrightarrow> nul_free (trim_end (take 255 line))"
  using trim_end_set [of "take 255 line"] set_take_subset [of 255 line] nul_free_sub by blast

section \<open>What a line can do to the session\<close>

text \<open>The value that \<open>set\<close> passes on is a C string like the line it comes from.\<close>

lemma cmd_set_cases:
  assumes "nul_free p" and "cmd_set s p out = (s', ls)"
  obtains (refused) "s' = s"
  | (changed) key v d where "v \<noteq> []" "nul_free v" "s' = s\<lparr>cfg := d, dirty := True\<rparr>"
      "sd_config_set_field (Some (cfg s)) (Some key) (Some v) = (SD_OK, Some d)"
  | (invalid) key v c e where "nul_free v" "s' = s\<lparr>cfg := the c\<rparr>" "e \<noteq> SD_OK"
      "sd_config_set_field (Some (cfg s)) (Some key) (Some v) = (e, c)"
proof -
  obtain k r where t: "next_token p = (k, r)" by (cases "next_token p")
  let ?v = "dropWhile blank r"
  have "nul_free ?v"
    using next_token_set [OF t] set_dropWhile_sub [of blank r] assms(1) nul_free_sub by blast
  moreover have "\<exists>d. c = Some d" if "sd_config_set_field (Some (cfg s)) (Some key) (Some ?v) = (e, c)" for key e c
    using that by (auto simp: sd_config_set_field_def split: if_splits prod.splits)
  ultimately show thesis
    using assms(2) t refused changed [of ?v] invalid [of ?v]
    by (fastforce simp: cmd_set_def Let_def split: option.splits if_splits prod.splits)
qed

lemma cmd_set_ok:
  assumes "config_ok (cfg s)" and "nul_free p" and "cmd_set s p out = (s', ls)"
  shows "config_ok (cfg s') \<and> (\<not> dirty s' \<longrightarrow> s' = s)"
  using assms(2,3)
proof (cases rule: cmd_set_cases)
  case refused
  then show ?thesis using assms(1) by simp
next
  case (changed key v d)
  then show ?thesis using set_field_ok [OF assms(1) _ changed(4)] by auto
next
  case (invalid key v c e)
  then have "c = Some (cfg s)" using set_field_ok [OF assms(1) _ invalid(4)] by auto
  then show ?thesis using assms(1) invalid(2) by simp
qed

lemma handle_cases:
  assumes "handle st s line out fs = (s', ls, fs')" and "nul_free line"
  obtains (same) "s' = s" "fs' = fs"
  | (set) p where "nul_free p" "cmd_set s p out = (s', ls)" "fs' = fs"
  | (save) "cmd_save st s out fs = (s', ls, fs')"
  | (reset) "cmd_reset s out = (s', ls)" "fs' = fs"
proof -
  let ?buf = "trim_end (take 255 line)"
  obtain k p where t: "next_token ?buf = (k, p)" by (cases "next_token ?buf")
  have "nul_free p" using next_token_set [OF t] nul_free_line [OF assms(2)] nul_free_sub by blast
  then show thesis
    using assms(1) t same set [of p] save reset
    by (auto simp: handle_def Let_def split: option.splits if_splits prod.splits)
qed

lemma handle_ok:
  assumes "handle st s line out fs = (s', ls, fs')" and "nul_free line" and "config_ok (cfg s)"
  shows "config_ok (cfg s')"
  using assms(1,2)
proof (cases rule: handle_cases)
  case (set p)
  then show ?thesis using cmd_set_ok assms(3) by blast
qed (use assms(3) config_ok_defaults in \<open>auto simp: cmd_save_def cmd_reset_def split: prod.splits if_splits\<close>)

text \<open>
  The dirty flag's promise: a session that is not dirty is what the store would load. It holds over
  a store whose writes succeed; after a torn write of an unchanged session it fails.
\<close>

definition in_sync :: "'s store_ops \<Rightarrow> 's \<Rightarrow> session \<Rightarrow> bool" where
  "in_sync st fs s \<longleftrightarrow> (dirty s \<or> (\<forall>c. snd (sd_config_load st fs (Some c)) = Some (cfg s)))"

locale reliable_store = config_store st stored readable
  for st :: "'s store_ops" and stored and readable +
  fixes reliable :: "'s \<Rightarrow> bool"
  assumes reliable_readable: "reliable s \<Longrightarrow> readable s"
    and reliable_write: "reliable s \<Longrightarrow> length b = BLOB_BYTES \<Longrightarrow> st_write st s b = (e, s') \<Longrightarrow> e = SD_OK \<and> reliable s'"
begin

lemma reliable_save:
  assumes "reliable fs" and "config_ok c" and "sd_config_save st fs (Some c) = (e, fs')"
  shows "e = SD_OK \<and> reliable fs' \<and> sd_config_load st fs' (Some d) = (SD_OK, Some c) \<and>
    sd_config_load_log st fs' (Some d) = []"
proof -
  let ?b = "le32 SD_CONFIG_VERSION @ struct_bytes c"
  have "length (le32 SD_CONFIG_VERSION @ struct_bytes c) = BLOB_BYTES"
    using assms(2) by (simp add: length_le length_struct_bytes BLOB_BYTES_def VERSION_BYTES_def)
  moreover have w: "st_write st fs ?b = (e, fs')" using assms(3) by (simp add: sd_config_save_def)
  ultimately have "e = SD_OK" "reliable fs'" using reliable_write [OF assms(1), of ?b e fs'] by simp_all
  then show ?thesis
    using write_ok [of fs ?b fs'] load_blob [of fs' c d] w assms(2) reliable_readable [OF assms(1)] by simp
qed

lemma handle_sync:
  assumes "handle st s line out fs = (s', ls, fs')" and "nul_free line" and "config_ok (cfg s)"
    and "reliable fs" and "in_sync st fs s"
  shows "in_sync st fs' s' \<and> reliable fs'"
  using assms(1,2)
proof (cases rule: handle_cases)
  case same
  then show ?thesis using assms by simp
next
  case (set p)
  then show ?thesis using cmd_set_ok [OF assms(3) set(1,2)] assms(4,5) by (auto simp: in_sync_def)
next
  case save
  obtain e f where w: "sd_config_save st fs (Some (cfg s)) = (e, f)"
    by (cases "sd_config_save st fs (Some (cfg s))")
  then show ?thesis
    using save reliable_save [OF assms(4,3) w] by (auto simp: cmd_save_def in_sync_def)
next
  case reset
  then show ?thesis using assms(4) by (auto simp: cmd_reset_def in_sync_def)
qed

lemma repl_sync:
  "repl_loop st s input fs = (s', tx, fs') \<Longrightarrow> config_ok (cfg s) \<Longrightarrow> reliable fs \<Longrightarrow> in_sync st fs s \<Longrightarrow>
     config_ok (cfg s') \<and> in_sync st fs' s' \<and> reliable fs'"
proof (induction "length input" arbitrary: input s fs tx rule: less_induct)
  case less
  show ?case
  proof (cases "fgets 256 input")
    case None
    then show ?thesis using less.prems by (simp add: repl_loop.simps)
  next
    case (Some lr)
    obtain line rest where lr: "lr = (line, rest)" by (cases lr)
    obtain s1 ls f1 where s1: "handle st s (cstr line) True fs = (s1, ls, f1)"
      by (cases "handle st s (cstr line) True fs") auto
    have "length rest < length input"
      using Some lr by (auto simp: fgets_def Let_def min_def split: if_splits)
    moreover obtain t2 where "repl_loop st s1 rest f1 = (s', t2, fs')"
      using less.prems(1) Some lr s1 by (auto simp: repl_loop.simps [of _ _ input] split: prod.splits)
    ultimately show ?thesis
      using less.hyps handle_ok [OF s1 nul_free_cstr less.prems(2)]
        handle_sync [OF s1 nul_free_cstr less.prems(2-4)] by blast
  qed
qed

lemma repl_saved:
  assumes "sd_provision_repl st s0 input fs = (s, tx, fs')" and "reliable fs"
  shows "config_ok (cfg s) \<and> reliable fs' \<and>
    (\<not> dirty s \<longrightarrow> (\<forall>c. snd (sd_config_load st fs' (Some c)) = Some (cfg s)))"
proof -
  obtain e c where l: "sd_config_load st fs (Some (cfg s0)) = (e, Some c)" "config_ok c"
    using load_ok [of fs "cfg s0"] by blast
  have "snd (sd_config_load st fs (Some d)) = snd (sd_config_load st fs (Some (cfg s0)))" for d
    by (simp add: sd_config_load_def)
  then have "in_sync st fs (sd_provision_init st fs s0)" "config_ok (cfg (sd_provision_init st fs s0))"
    using l by (simp_all add: in_sync_def sd_provision_init_def)
  moreover obtain tx where "repl_loop st (sd_provision_init st fs s0) input fs = (s, tx, fs')"
    using assms(1) by (auto simp: sd_provision_repl_def split: prod.splits)
  ultimately show ?thesis
    using repl_sync assms(2) unfolding in_sync_def by blast
qed

end

text \<open>The host's file on a medium that takes the whole blob.\<close>

definition reliable :: "host_fs \<Rightarrow> bool" where
  "reliable fs \<longleftrightarrow> host_sound fs \<and> wr_open fs \<and> BLOB_BYTES \<le> wr_limit fs"

interpretation host: reliable_store host_store fs_file host_sound reliable
  by unfold_locales
    (auto simp: reliable_def host_sound_def host_store_def host_store_write_def Let_def split: if_splits)

section \<open>The password stays inside\<close>

text \<open>
  Two configurations that differ at most in the bytes of a password that is set in both or in
  neither, two sessions that hold such configurations, and two stores that behave alike.
\<close>

definition alike_cfg :: "sd_config \<Rightarrow> sd_config \<Rightarrow> bool" where
  "alike_cfg c d \<longleftrightarrow> config_ok c \<and> config_ok d \<and>
     d = c\<lparr>wifi_password := wifi_password d\<rparr> \<and>
     (wifi_password c ! 0 = NUL \<longleftrightarrow> wifi_password d ! 0 = NUL)"

definition alike :: "session \<Rightarrow> session \<Rightarrow> bool" where
  "alike s t \<longleftrightarrow> alike_cfg (cfg s) (cfg t) \<and> dirty s = dirty t"

definition alike_fs :: "host_fs \<Rightarrow> host_fs \<Rightarrow> bool" where
  "alike_fs f g \<longleftrightarrow> wr_open f = wr_open g \<and> wr_limit f = wr_limit g"

lemma alike_cfg_fields:
  assumes "alike_cfg c d"
  shows "wifi_ssid d = wifi_ssid c" "server_host d = server_host c" "device_name d = device_name c"
    "server_port d = server_port c" "(wifi_password d ! 0 = NUL) = (wifi_password c ! 0 = NUL)"
  using assms by (cases c; cases d; simp add: alike_cfg_def)+

lemma alike_set_field:
  assumes a: "alike_cfg c d" and v: "nul_free v" "v \<noteq> []"
    and c: "sd_config_set_field (Some c) (Some key) (Some v) = (e, c')"
    and d: "sd_config_set_field (Some d) (Some key) (Some v) = (e', d')"
  shows "e' = e \<and> (\<exists>x y. c' = Some x \<and> d' = Some y \<and> alike_cfg x y)"
proof -
  obtain x y where xy: "c' = Some x" "config_ok x" "d' = Some y" "config_ok y"
    using set_field_ok [OF _ _ c] set_field_ok [OF _ _ d] a v(1) unfolding alike_cfg_def by blast
  have first: "(v @ NUL # w) ! 0 \<noteq> NUL" for w using v by (cases v) auto
  have "e' = e \<and> y = x\<lparr>wifi_password := wifi_password y\<rparr> \<and>
      (wifi_password x ! 0 = NUL \<longleftrightarrow> wifi_password y ! 0 = NUL)"
    using c d a xy(1,3) first
    by (cases c; cases d)
      (auto simp: sd_config_set_field_def set_str_def alike_cfg_def Let_def split: if_splits prod.splits)
  then show ?thesis using xy by (simp add: alike_cfg_def)
qed

lemma alike_show: "alike_cfg c d \<Longrightarrow> cmd_show d out = cmd_show c out"
  by (simp add: cmd_show_def alike_cfg_fields)

lemma alike_get: "alike s t \<Longrightarrow> cmd_get t p out = cmd_get s p out"
proof -
  assume "alike s t"
  then have a: "alike_cfg (cfg s) (cfg t)" by (simp add: alike_def)
  have "sd_config_get_field (Some (cfg t)) (Some key) buf = sd_config_get_field (Some (cfg s)) (Some key) buf"
    if "key \<noteq> ''wifi_password''" for key buf
    using that by (simp add: sd_config_get_field_def alike_cfg_fields [OF a] split: option.split)
  then show ?thesis
    by (auto simp: cmd_get_def alike_cfg_fields [OF a] split: option.split prod.split)
qed

lemma alike_set:
  assumes a: "alike s t" and p: "nul_free p"
    and s: "cmd_set s p out = (s', ls)" and t: "cmd_set t p out = (t', ms)"
  shows "ms = ls \<and> alike s' t'"
proof -
  obtain k r where n: "next_token p = (k, r)" by (cases "next_token p")
  let ?v = "dropWhile blank r"
  have v: "nul_free ?v"
    using next_token_set [OF n] set_dropWhile_sub [of blank r] p nul_free_sub by blast
  show ?thesis
  proof (cases "k = None \<or> ?v = []")
    case True
    then show ?thesis using a s t n by (auto simp: cmd_set_def Let_def split: option.splits)
  next
    case False
    then obtain key where k: "k = Some key" "?v \<noteq> []" by auto
    obtain e c where c: "sd_config_set_field (Some (cfg s)) (Some key) (Some ?v) = (e, c)"
      by (cases "sd_config_set_field (Some (cfg s)) (Some key) (Some ?v)")
    obtain e' d where d: "sd_config_set_field (Some (cfg t)) (Some key) (Some ?v) = (e', d)"
      by (cases "sd_config_set_field (Some (cfg t)) (Some key) (Some ?v)")
    have "alike_cfg (cfg s) (cfg t)" using a by (simp add: alike_def)
    from alike_set_field [OF this v k(2) c d] obtain x y where "e' = e" "c = Some x" "d = Some y" "alike_cfg x y"
      by blast
    then show ?thesis
      using a s t n k c d by (auto simp: cmd_set_def Let_def alike_def split: if_splits)
  qed
qed

lemma alike_save:
  assumes a: "alike s t" and f: "alike_fs f g"
    and s: "cmd_save host_store s out f = (s', ls, f')" and t: "cmd_save host_store t out g = (t', ms, g')"
  shows "ms = ls \<and> alike s' t' \<and> alike_fs f' g'"
proof -
  have "length (struct_bytes (cfg t)) = length (struct_bytes (cfg s))"
    using a by (simp add: alike_def alike_cfg_def length_struct_bytes)
  then have "length (le32 SD_CONFIG_VERSION @ struct_bytes (cfg t)) = length (le32 SD_CONFIG_VERSION @ struct_bytes (cfg s))"
    by simp
  then show ?thesis
    using a f s t unfolding cmd_save_def sd_config_save_def host_store_def host_store_write_def
    by (auto simp: alike_fs_def alike_def Let_def simp del: length_append split: if_splits)
qed

lemma handle_alike:
  assumes a: "alike s t" and f: "alike_fs f g" and l: "nul_free line"
    and s: "handle host_store s line out f = (s', ls, f')" and t: "handle host_store t line out g = (t', ms, g')"
  shows "ms = ls \<and> alike s' t' \<and> alike_fs f' g'"
proof -
  let ?buf = "trim_end (take 255 line)"
  obtain k p where n: "next_token ?buf = (k, p)" by (cases "next_token ?buf")
  have p: "nul_free p" using next_token_set [OF n] nul_free_line [OF l] nul_free_sub by blast
  have c: "alike_cfg (cfg s) (cfg t)" using a by (simp add: alike_def)
  have d: "alike_cfg sd_config_defaults sd_config_defaults"
    using config_ok_defaults by (simp add: alike_cfg_def)
  obtain s1 l1 where s1: "cmd_set s p out = (s1, l1)" by (cases "cmd_set s p out")
  obtain t1 m1 where t1: "cmd_set t p out = (t1, m1)" by (cases "cmd_set t p out")
  note set = alike_set [OF a p s1 t1]
  consider "k = None" | "k = Some ''save''" | cmd where "k = Some cmd" "cmd \<noteq> ''save''"
    by (cases k) auto
  then show ?thesis
  proof cases
    case 1
    then show ?thesis using s t n a f by (simp add: handle_def Let_def)
  next
    case 2
    then show ?thesis using s t n alike_save [OF a f, of out s' ls f' t' ms g'] by (simp add: handle_def Let_def)
  next
    case 3
    then show ?thesis
      using s t n a f set s1 t1 d
      by (auto simp: handle_def Let_def alike_show [OF c] alike_get [OF a] cmd_reset_def alike_def split: if_splits)
  qed
qed

lemma repl_alike:
  "alike s t \<Longrightarrow> alike_fs f g \<Longrightarrow>
     fst (snd (repl_loop host_store t input g)) = fst (snd (repl_loop host_store s input f))"
proof (induction "length input" arbitrary: input s t f g rule: less_induct)
  case less
  show ?case
  proof (cases "fgets 256 input")
    case None
    then show ?thesis by (simp add: repl_loop.simps)
  next
    case (Some lr)
    obtain line rest where lr: "lr = (line, rest)" by (cases lr)
    obtain s1 ls f1 where s1: "handle host_store s (cstr line) True f = (s1, ls, f1)"
      by (cases "handle host_store s (cstr line) True f") auto
    obtain t1 ms g1 where t1: "handle host_store t (cstr line) True g = (t1, ms, g1)"
      by (cases "handle host_store t (cstr line) True g") auto
    have h: "ms = ls" "alike s1 t1" "alike_fs f1 g1"
      using handle_alike [OF less.prems nul_free_cstr s1 t1] by auto
    have "length rest < length input"
      using Some lr by (auto simp: fgets_def Let_def min_def split: if_splits)
    from less.hyps [OF this h(2,3)] show ?thesis
      using Some lr s1 t1 h(1) by (auto simp: repl_loop.simps [of _ _ input] split: prod.split)
  qed
qed

section \<open>Properties of the console\<close>

text \<open>
  C25: the console never reveals the Wi-Fi password. Two devices whose configurations differ only
  in the bytes of a password that both have set (or neither), fed the same input, print the same
  text, whatever the commands: every \<open>show\<close>, \<open>get\<close>, error and confirmation included.
\<close>

theorem sd_provision_password_secret:
  assumes "alike s t" and "alike_fs f g"
  shows "fst (snd (repl_loop host_store s input f)) = fst (snd (repl_loop host_store t input g))"
  using repl_alike [OF assms] by simp


lemma takeWhile_all: "\<forall>c\<in>set k. \<not> blank c \<Longrightarrow> takeWhile (\<lambda>c. \<not> blank c) (k @ BLANK # r) = k \<and>
    dropWhile (\<lambda>c. \<not> blank c) (k @ BLANK # r) = BLANK # r"
  by (induction k) (auto simp: blank_def)

lemma next_token_word:
  "k \<noteq> [] \<Longrightarrow> \<forall>c\<in>set k. \<not> blank c \<Longrightarrow> next_token (k @ BLANK # r) = (Some k, r)"
  using takeWhile_all [of k r] by (cases k) (auto simp: next_token_def Let_def)

lemma next_token_last:
  assumes "k \<noteq> []" and "\<forall>c\<in>set k. \<not> blank c"
  shows "next_token k = (Some k, [])"
proof -
  have "dropWhile blank k = k" using assms by (cases k) auto
  moreover have "takeWhile (\<lambda>c. \<not> blank c) k = k" "dropWhile (\<lambda>c. \<not> blank c) k = []"
    using assms(2) by (simp_all add: takeWhile_eq_all_conv dropWhile_eq_Nil_conv)
  ultimately show ?thesis
    unfolding next_token_def Let_def using assms(1) by (simp only: if_False list.sel(2))
qed

lemma trim_end_id:
  "s \<noteq> [] \<Longrightarrow> last s \<notin> {LF, CR, BLANK, HT} \<Longrightarrow> trim_end s = s"
  by (cases s rule: rev_cases) (auto simp: trim_end_def)

lemma string_key_word: "string_key k \<Longrightarrow> k \<noteq> [] \<and> (\<forall>c\<in>set k. \<not> blank c) \<and> length k \<le> 13 \<and>
    last k \<notin> {LF, CR, BLANK, HT} \<and> nul_free k"
  by (auto simp: string_key_def blank_def)

lemma print_to_short: "nul_free s \<Longrightarrow> length s < cap \<Longrightarrow> print_to cap s = s"
  using cstr_snprintf_str [of s "replicate cap NUL"] by (cases cap) (simp_all add: print_to_def)

lemma get_line:
  assumes "string_key k"
  shows "handle st s (''get '' @ k) out fs = (s, cmd_get s k out, fs)"
proof -
  note k = string_key_word [OF assms]
  have "last (''get '' @ k) = last k" "length (''get '' @ k) \<le> 255" using k by simp_all
  then have line: "trim_end (take 255 (''get '' @ k)) = ''get '' @ k"
    using k by (simp add: trim_end_id del: append_Cons)
  have "next_token (''get '' @ k) = (Some ''get'', k)"
    using next_token_word [of "''get''" k] by (simp add: blank_def)
  then show ?thesis unfolding handle_def Let_def line by simp
qed

lemma cstr_first: "cstr d \<noteq> [] \<Longrightarrow> d ! 0 \<noteq> NUL"
  by (cases d) (auto simp: cstr_def)

lemma get_prints:
  assumes "string_key k" and "nul_free v" and "v \<noteq> []" and "length v \<le> max_len k"
    and "field_text (cfg s) k = Some v"
  shows "cmd_get s k True = [if k = ''wifi_password'' then ''(set)'' else v]"
proof -
  have t: "next_token k = (Some k, [])" using string_key_word [OF assms(1)] by (intro next_token_last) auto
  show ?thesis
  proof (cases "k = ''wifi_password''")
    case True
    then have "wifi_password (cfg s) ! 0 \<noteq> NUL" using assms(3,5) by (intro cstr_first) (simp add: field_text_def)
    then show ?thesis using t True by (simp add: cmd_get_def emit_line_def)
  next
    case False
    have "length v \<le> 63" using assms(4) by (auto simp: max_len_def field_sizes split: if_splits)
    then have "cstr (snprintf_str (replicate 128 NUL) v) = v"
      using cstr_snprintf_str [OF assms(2), of "replicate 128 NUL"] by simp
    then show ?thesis
      using t False assms(5) by (simp add: cmd_get_def emit_line_def get_field_text)
  qed
qed

text \<open>
  C27: \<open>set key value\<close> stores exactly the text behind the key, inner blanks included, marks the
  session dirty, and \<open>get key\<close> then prints exactly that text (for the password only that it is
  set); a value that is too long is refused and the session keeps its configuration and its flag.
\<close>

theorem sd_provision_set_get:
  assumes "config_ok (cfg s)" and "string_key k" and "nul_free v" and "v \<noteq> []"
    and "\<not> blank (hd v)" and "last v \<notin> {LF, CR, BLANK, HT}" and "length v \<le> 200"
  shows "if length v \<le> max_len k
    then \<exists>d. handle st s (''set '' @ k @ BLANK # v) True fs =
        (s\<lparr>cfg := d, dirty := True\<rparr>,
         [if k = ''wifi_password'' then ''ok: wifi_password updated '' @ quoted_save
          else ''ok: '' @ k @ '' set '' @ quoted_save], fs) \<and>
      (\<forall>k'. field_text d k' = (if k' = k then Some v else field_text (cfg s) k')) \<and>
      handle st (s\<lparr>cfg := d, dirty := True\<rparr>) (''get '' @ k) True fs =
        (s\<lparr>cfg := d, dirty := True\<rparr>, [if k = ''wifi_password'' then ''(set)'' else v], fs)
    else handle st s (''set '' @ k @ BLANK # v) True fs = (s, [''error: invalid key or value''], fs)"
proof -
  note k = string_key_word [OF assms(2)]
  have "last (''set '' @ k @ BLANK # v) = last v" using assms(4) by simp
  moreover have "length (''set '' @ k @ BLANK # v) \<le> 255" using k assms(7) by simp
  ultimately have line: "trim_end (take 255 (''set '' @ k @ BLANK # v)) = ''set '' @ k @ BLANK # v"
    using assms(6) by (simp add: trim_end_id del: append_Cons)
  have t1: "next_token (''set '' @ k @ BLANK # v) = (Some ''set'', k @ BLANK # v)"
    using next_token_word [of "''set''" "k @ BLANK # v"] by (simp add: blank_def)
  have t2: "next_token (k @ BLANK # v) = (Some k, v)" using k by (intro next_token_word) auto
  have t3: "dropWhile blank v = v" using assms(4,5) by (cases v) auto
  have set: "handle st s (''set '' @ k @ BLANK # v) True fs = (case cmd_set s (k @ BLANK # v) True of (s', ls) \<Rightarrow> (s', ls, fs))"
    unfolding handle_def Let_def line t1 by simp
  show ?thesis
  proof (cases "length v \<le> max_len k")
    case False
    then have "sd_config_set_field (Some (cfg s)) (Some k) (Some v) = (SD_ERR_INVALID, Some (cfg s))"
      using set_string_field [OF assms(1-3)] by simp
    then show ?thesis unfolding set cmd_set_def t2 using False assms(4,5) hd_in_set [OF assms(4)] by (auto simp: t3 emit_line_def)
  next
    case True
    then obtain d where d: "sd_config_set_field (Some (cfg s)) (Some k) (Some v) = (SD_OK, Some d)" "config_ok d"
        "\<forall>k'. field_text d k' = (if k' = k then Some v else field_text (cfg s) k')"
      using set_string_field [OF assms(1-3)] by auto
    have msg: "print_to 160 (''ok: '' @ k @ '' set '' @ quoted_save) = ''ok: '' @ k @ '' set '' @ quoted_save"
      using k by (intro print_to_short) (simp_all add: quoted_save_def)
    have "handle st s (''set '' @ k @ BLANK # v) True fs = (s\<lparr>cfg := d, dirty := True\<rparr>,
         [if k = ''wifi_password'' then ''ok: wifi_password updated '' @ quoted_save
          else ''ok: '' @ k @ '' set '' @ quoted_save], fs)"
      unfolding set cmd_set_def t2 using d(1) assms(4,5) hd_in_set [OF assms(4)] msg by (auto simp: t3 emit_line_def)
    moreover have "handle st (s\<lparr>cfg := d, dirty := True\<rparr>) (''get '' @ k) True fs =
        (s\<lparr>cfg := d, dirty := True\<rparr>, [if k = ''wifi_password'' then ''(set)'' else v], fs)"
      using get_line [OF assms(2), of st "s\<lparr>cfg := d, dirty := True\<rparr>" True fs] d(3) True
        get_prints [OF assms(2-4) True, of "s\<lparr>cfg := d, dirty := True\<rparr>"] by simp
    ultimately show ?thesis using d(3) True by auto
  qed
qed

section \<open>Witnesses\<close>

definition shop :: session where
  "shop = \<lparr>cfg = sd_config_defaults\<lparr>wifi_password := ''secret'' @ replicate 58 NUL\<rparr>, dirty = False\<rparr>"

definition cafe :: session where
  "cafe = \<lparr>cfg = sd_config_defaults\<lparr>wifi_password := ''hunter22'' @ replicate 56 NUL\<rparr>, dirty = False\<rparr>"

definition empty_fs :: host_fs where
  "empty_fs = \<lparr>fs_file = None, rd_fail = None, wr_open = True, wr_limit = 4096, flush_limit = 4096\<rparr>"

lemma alike_shop_cafe: "alike shop cafe"
  using config_ok_defaults
  by (simp add: alike_def alike_cfg_def shop_def cafe_def config_ok_def field_ok_def field_sizes nth_append)

theorem sd_provision_password_secret_witness:
  "fst (snd (repl_loop host_store shop (''show'' @ [LF] @ ''save'') empty_fs)) =
   fst (snd (repl_loop host_store cafe (''show'' @ [LF] @ ''save'') empty_fs))"
  by (rule sd_provision_password_secret [OF alike_shop_cafe]) (simp add: alike_fs_def)


theorem sd_provision_set_get_witness:
  "if length ''my net'' \<le> max_len ''wifi_ssid''
    then \<exists>d. handle host_store shop (''set '' @ ''wifi_ssid'' @ BLANK # ''my net'') True empty_fs =
        (shop\<lparr>cfg := d, dirty := True\<rparr>,
         [if ''wifi_ssid'' = ''wifi_password'' then ''ok: wifi_password updated '' @ quoted_save
          else ''ok: '' @ ''wifi_ssid'' @ '' set '' @ quoted_save], empty_fs) \<and>
      (\<forall>k'. field_text d k' = (if k' = ''wifi_ssid'' then Some ''my net'' else field_text (cfg shop) k')) \<and>
      handle host_store (shop\<lparr>cfg := d, dirty := True\<rparr>) (''get '' @ ''wifi_ssid'') True empty_fs =
        (shop\<lparr>cfg := d, dirty := True\<rparr>, [if ''wifi_ssid'' = ''wifi_password'' then ''(set)'' else ''my net''], empty_fs)
    else handle host_store shop (''set '' @ ''wifi_ssid'' @ BLANK # ''my net'') True empty_fs =
      (shop, [''error: invalid key or value''], empty_fs)"
proof (rule sd_provision_set_get)
  show "config_ok (cfg shop)" using alike_shop_cafe by (simp add: alike_def alike_cfg_def)
qed (simp_all add: string_key_def blank_def)

section \<open>A line that is too long is two commands\<close>

text \<open>The tail of an input line of more than 255 characters is executed as a line of its own.\<close>

lemma fgets_long_line: "length a = 255 \<Longrightarrow> LF \<notin> set a \<Longrightarrow> fgets 256 (a @ b) = Some (a, b)"
proof -
  assume a: "length a = 255" "LF \<notin> set a"
  then have "takeWhile (\<lambda>c. c \<noteq> LF) (a @ b) = a @ takeWhile (\<lambda>c. c \<noteq> LF) b"
    by (intro takeWhile_append2) auto
  then show ?thesis using a by (auto simp: fgets_def Let_def)
qed

text \<open>A shorter value does not erase the rest of the one it replaces, which is saved with it.\<close>

lemma set_str_keeps_tail:
  "set_str (''secret'' @ [NUL, NUL]) ''a'' 7 = (SD_OK, ''a'' @ [NUL] @ ''cret'' @ [NUL, NUL])"
  by (simp add: set_str_def)
end
