(* ===== verification/Cli.thy ===== *)
theory Cli
  imports Provisioning
begin

text \<open>
  The configuration tools of the host (\<open>src/app/main_config.c\<close>, \<open>main_provision.c\<close>): \<open>show\<close>, \<open>get\<close> and \<open>set\<close> over the
  configuration store. A run is its exit code, what it prints on the two streams, and the store. The
  logger keeps its default level and writes to the error stream.
\<close>

section \<open>The code\<close>

definition usage_text :: string where
  "usage_text = ''usage:'' @ [LF] @ ''  device_config show'' @ [LF] @ ''  device_config get <key>'' @ [LF] @
     ''  device_config set <key> <value>'' @ [LF] @
     ''keys: device_name wifi_ssid wifi_password server_host server_port'' @ [LF]"

definition print_show :: "sd_config \<Rightarrow> string" where
  "print_show c =
     ''device_name   = '' @ cstr (device_name c) @ [LF] @
     ''wifi_ssid     = '' @ (if wifi_ssid c ! 0 \<noteq> NUL then cstr (wifi_ssid c) else ''(unset)'') @ [LF] @
     ''wifi_password = '' @ (if wifi_password c ! 0 \<noteq> NUL then ''(set)'' else ''(unset)'') @ [LF] @
     ''server_host   = '' @ (if server_host c ! 0 \<noteq> NUL then cstr (server_host c) else ''(unset)'') @ [LF] @
     ''server_port   = '' @ decimal (unat (server_port c)) @ [LF]"

record 's run =
  exit_code :: int
  out_text :: string
  err_text :: string
  store :: 's

definition usage_run :: "'s \<Rightarrow> 's run" where
  "usage_run s = \<lparr>exit_code = 2, out_text = [], err_text = usage_text, store = s\<rparr>"

text \<open>The branches \<open>get\<close> and \<open>set\<close>; \<open>argv\<close> are the arguments with the program's name first.\<close>

definition config_get :: "string list \<Rightarrow> sd_config \<Rightarrow> 's \<Rightarrow> 's run" where
  "config_get argv c s =
     (if length argv < 3 then usage_run s
      else if argv ! 2 = ''wifi_password'' then
        \<lparr>exit_code = 0, out_text = (if wifi_password c ! 0 \<noteq> NUL then ''(set)'' else ''(unset)'') @ [LF],
         err_text = [], store = s\<rparr>
      else (case sd_config_get_field (Some c) (Some (argv ! 2)) (Some (replicate 128 NUL)) of (e, v) \<Rightarrow>
        if e \<noteq> SD_OK
        then \<lparr>exit_code = 2, out_text = [], err_text = ''unknown key: '' @ argv ! 2 @ [LF], store = s\<rparr>
        else \<lparr>exit_code = 0, out_text = cstr (the v) @ [LF], err_text = [], store = s\<rparr>))"

definition config_set :: "'s store_ops \<Rightarrow> string list \<Rightarrow> sd_config \<Rightarrow> 's \<Rightarrow> 's run" where
  "config_set st argv c s =
     (if length argv < 4 then usage_run s
      else (case sd_config_set_field (Some c) (Some (argv ! 2)) (Some (argv ! 3)) of (e, d) \<Rightarrow>
        if e \<noteq> SD_OK
        then \<lparr>exit_code = 2, out_text = [],
              err_text = ''invalid key or value: '' @ argv ! 2 @ '' = '' @ argv ! 3 @ [LF], store = s\<rparr>
        else (case sd_config_save st s d of (e, s) \<Rightarrow>
          if e \<noteq> SD_OK
          then \<lparr>exit_code = 1, out_text = [], err_text = ''failed to save configuration'' @ [LF], store = s\<rparr>
          else \<lparr>exit_code = 0,
                out_text = (if argv ! 2 = ''wifi_password'' then ''set wifi_password = (hidden)'' @ [LF]
                            else ''set '' @ argv ! 2 @ '' = '' @ argv ! 3 @ [LF]),
                err_text = [], store = s\<rparr>)))"

text \<open>\<open>main\<close>; \<open>c0\<close> is the uninitialised \<open>cfg\<close>, and the load's code is ignored.\<close>

definition logged :: "log_line list \<Rightarrow> 's run \<Rightarrow> 's run" where
  "logged ls r = r\<lparr>err_text := log_text SD_LOG_INFO ls @ err_text r\<rparr>"

definition device_config :: "'s store_ops \<Rightarrow> sd_config \<Rightarrow> string list \<Rightarrow> 's \<Rightarrow> 's run" where
  "device_config st c0 argv s =
     (if length argv < 2 then usage_run s
      else (let c = the (snd (sd_config_load st s (Some c0)));
                cmd = argv ! 1
            in logged (sd_config_load_log st s (Some c0))
                 (if cmd = ''show'' then \<lparr>exit_code = 0, out_text = print_show c, err_text = [], store = s\<rparr>
                  else if cmd = ''get'' then config_get argv c s
                  else if cmd = ''set'' then config_set st argv c s
                  else usage_run s)))"

text \<open>The provisioning tool (\<open>main_provision.c\<close>): the console on the standard streams.\<close>

definition device_provision :: "'s store_ops \<Rightarrow> session \<Rightarrow> string \<Rightarrow> 's \<Rightarrow> 's run" where
  "device_provision st s0 input s =
     (case sd_provision_repl st s0 input s of (q, shown, s') \<Rightarrow>
        \<lparr>exit_code = 0, out_text = shown,
         err_text = log_text SD_LOG_INFO (sd_config_load_log st s (Some (cfg s0))), store = s'\<rparr>)"

section \<open>Properties of the tool\<close>

text \<open>The two tools agree: what a session has saved is what \<open>show\<close> prints.\<close>

lemma provision_then_show:
  assumes "reliable fs" and "sd_provision_repl host_store s0 input fs = (q, shown, fs')" and "\<not> dirty q"
  shows "out_text (device_config host_store c0 [p, ''show''] (store (device_provision host_store s0 input fs))) =
    print_show (cfg q)"
proof -
  have "snd (sd_config_load host_store fs' (Some c0)) = Some (cfg q)"
    using host.repl_saved [OF assms(2,1)] assms(3) by blast
  then show ?thesis using assms(2) by (simp add: device_provision_def device_config_def logged_def)
qed

lemma load_total: "\<exists>c. snd (sd_config_load host_store fs (Some c0)) = Some c \<and> config_ok c"
  using host.load_ok [of fs c0] by (metis snd_conv)

lemma logged_simps [simp]:
  "exit_code (logged ls r) = exit_code r" "out_text (logged ls r) = out_text r" "store (logged ls r) = store r"
  "logged [] r = r"
  by (simp_all add: logged_def log_text_def logger_init_def sd_log_set_level_def)

text \<open>What \<open>get\<close> prints is determined by the text of the field.\<close>

lemma first_char: "d \<noteq> [] \<Longrightarrow> d ! 0 \<noteq> NUL \<longleftrightarrow> cstr d \<noteq> []"
  by (cases d) (simp_all add: cstr_def)

lemma config_get_text:
  assumes "config_ok c"
  shows "config_get [p, ''get'', k] c s =
    (if k = ''wifi_password'' then
       \<lparr>exit_code = 0, out_text = (if field_text c k = Some [] then ''(unset)'' else ''(set)'') @ [LF], err_text = [], store = s\<rparr>
     else (case field_text c k of
         None \<Rightarrow> \<lparr>exit_code = 2, out_text = [], err_text = ''unknown key: '' @ k @ [LF], store = s\<rparr>
       | Some v \<Rightarrow> \<lparr>exit_code = 0, out_text = cstr (snprintf_str (replicate 128 NUL) v) @ [LF], err_text = [], store = s\<rparr>))"
proof -
  have "wifi_password c \<noteq> []" using assms by (auto simp: config_ok_def field_ok_def)
  then show ?thesis
    using first_char [of "wifi_password c"]
    by (auto simp: config_get_def get_field_text field_text_def)
qed

lemma device_config_get:
  assumes "snd (sd_config_load host_store fs (Some c0)) = Some c"
  shows "device_config host_store c0 [p, ''get'', k] fs =
    logged (sd_config_load_log host_store fs (Some c0)) (config_get [p, ''get'', k] c fs)"
  using assms by (simp add: device_config_def)

text \<open>A run that sets a field of a store that can be written saves exactly the new configuration.\<close>

lemma config_set_saves:
  assumes "reliable fs" and "config_ok c" and "string_key k" and "nul_free v" and "length v \<le> max_len k"
  shows "\<exists>d fs'. config_set host_store [p, ''set'', k, v] c fs =
      \<lparr>exit_code = 0, out_text = (if k = ''wifi_password'' then ''set wifi_password = (hidden)'' @ [LF]
         else ''set '' @ k @ '' = '' @ v @ [LF]), err_text = [], store = fs'\<rparr> \<and>
    reliable fs' \<and> (\<forall>c0. sd_config_load host_store fs' (Some c0) = (SD_OK, Some d) \<and>
      sd_config_load_log host_store fs' (Some c0) = []) \<and> config_ok d \<and>
    (\<forall>k'. field_text d k' = (if k' = k then Some v else field_text c k'))"
proof -
  obtain d where d: "sd_config_set_field (Some c) (Some k) (Some v) = (SD_OK, Some d)" "config_ok d"
      "\<forall>k'. field_text d k' = (if k' = k then Some v else field_text c k')"
    using set_string_field [OF assms(2-4)] assms(5) by auto
  obtain e fs' where s: "sd_config_save host_store fs (Some d) = (e, fs')"
    by (cases "sd_config_save host_store fs (Some d)")
  have ok: "e = SD_OK" "reliable fs'" "sd_config_load host_store fs' (Some c0) = (SD_OK, Some d)"
      "sd_config_load_log host_store fs' (Some c0) = []" for c0
    using host.reliable_save [OF assms(1) d(2) s] by auto
  then show ?thesis using d s ok by (auto simp: config_set_def)
qed


text \<open>
  A password that is too long is echoed on the error stream.
\<close>

theorem device_config_echoes_password:
  assumes "nul_free v" and "SD_WIFI_PASS_MAX < length v"
  shows "device_config host_store c0 [p, ''set'', ''wifi_password'', v] fs =
    \<lparr>exit_code = 2, out_text = [],
     err_text = log_text SD_LOG_INFO (sd_config_load_log host_store fs (Some c0)) @
       ''invalid key or value: wifi_password = '' @ v @ [LF], store = fs\<rparr>"
proof -
  obtain c where c: "snd (sd_config_load host_store fs (Some c0)) = Some c" "config_ok c"
    using load_total by blast
  have "sd_config_set_field (Some c) (Some ''wifi_password'') (Some v) = (SD_ERR_INVALID, Some c)"
    using set_string_field [OF c(2) _ assms(1), of "''wifi_password''"] assms(2)
    by (simp add: string_key_def max_len_def)
  then show ?thesis using c(1) by (simp add: device_config_def config_set_def logged_def)
qed


theorem device_config_echoes_password_witness:
  "device_config host_store sd_config_defaults [''device_config'', ''set'', ''wifi_password'', replicate 64 (CHR ''x'')] empty_fs =
    \<lparr>exit_code = 2, out_text = [],
     err_text = ''[I][config] no stored config; using defaults'' @ [LF] @
       ''invalid key or value: wifi_password = '' @ replicate 64 (CHR ''x'') @ [LF], store = empty_fs\<rparr>"
proof -
  have "log_text SD_LOG_INFO (sd_config_load_log host_store empty_fs (Some sd_config_defaults)) =
      ''[I][config] no stored config; using defaults'' @ [LF]"
    by code_simp
  then show ?thesis
    using device_config_echoes_password [of "replicate 64 (CHR ''x'')" sd_config_defaults "''device_config''" empty_fs]
    by (simp add: nul_free_def field_sizes)
qed

end
