(* ===== verification/Boot.thy ===== *)
theory Boot
  imports Esp Net Nvs Cli
begin

text \<open>
  The entry points: the boot of the ESP32 firmware (\<open>esp-idf/main/app_main.c\<close>) with its opt-in
  builds, the demo of the host (\<open>src/app/main_host.c\<close>) and the interoperability client
  (\<open>src/app/main_interop.c\<close>). They compose the configuration, the network, the transport and the
  device application.
\<close>

section \<open>The boot of the ESP32\<close>

text \<open>\<open>nvs_flash_init\<close> and \<open>nvs_flash_erase\<close> on the partition that holds the configuration.\<close>

datatype flash_answer = Flash_ok | Flash_no_free_pages | Flash_new_version | Flash_other

record 's flash_lib =
  nvs_flash_init :: "'s \<Rightarrow> flash_answer \<times> 's"
  nvs_flash_erase :: "'s \<Rightarrow> 's"

definition boot_nvs :: "'s flash_lib \<Rightarrow> 's \<Rightarrow> 's" where
  "boot_nvs F s =
     (case nvs_flash_init F s of (nv, s) \<Rightarrow>
        if nv = Flash_no_free_pages \<or> nv = Flash_new_version
        then (case nvs_flash_init F (nvs_flash_erase F s) of (nv, s) \<Rightarrow> s)
        else s)"

text \<open>The boot's own lines of the log have the tag \<open>app_main\<close>.\<close>

definition backend_line :: "build \<Rightarrow> string" where
  "backend_line b =
     ''HAL backends: camera='' @ esp_camera_backend b @ '' battery='' @ esp_battery_backend @
     '' audio='' @ esp_audio_backend b @ '' mic='' @ esp_mic_backend"

definition config_line :: "sd_config \<Rightarrow> string" where
  "config_line c =
     ''config: device='' @ cstr (device_name c) @
     '' server='' @ (if server_host c ! 0 \<noteq> NUL then cstr (server_host c) else ''(unset)'') @
     '':'' @ decimal (unat (server_port c)) @
     '' ssid='' @ (if wifi_ssid c ! 0 \<noteq> NUL then cstr (wifi_ssid c) else ''(unset)'') @
     '' password='' @ (if wifi_password c ! 0 \<noteq> NUL then ''(set)'' else ''(unset)'')"

text \<open>
  \<open>for (attempt = 1; attempt <= 5; ++attempt)\<close>: what the resolver, the sockets and \<open>calloc\<close> answer
  to each attempt is \<open>net a\<close>; the result has the last code, the handle, the descriptors, the
  milliseconds waited and the log.
\<close>

definition attempt_line :: "nat \<Rightarrow> string \<Rightarrow> 16 word \<Rightarrow> sd_err \<Rightarrow> string" where
  "attempt_line attempt host port terr =
     ''net self-test: connect attempt '' @ decimal attempt @ ''/5 to '' @ host @ '':'' @
     decimal (unat port) @ '' failed: '' @ sd_strerror terr"

fun connect_retry ::
    "(nat \<Rightarrow> resolver \<times> bool) \<Rightarrow> string \<Rightarrow> 16 word \<Rightarrow> nat list \<Rightarrow> sd_err \<Rightarrow> fd_table
       \<Rightarrow> sd_err \<times> nat option \<times> fd_table \<times> nat \<times> log_line list" where
  "connect_retry net host port [] terr ft = (terr, None, ft, 0, [])"
| "connect_retry net host port (attempt # as) terr ft =
     (case wifi_transport_connect (fst (net attempt)) (snd (net attempt)) True (Some host) port ft of (terr, t, ft) \<Rightarrow>
        if terr = SD_OK then (terr, t, ft, 0, [])
        else (case connect_retry net host port as terr ft of (terr', t, ft, ms, ls) \<Rightarrow>
                (terr', t, ft, 1000 * attempt + ms, (SD_LOG_WARN, ''app_main'', attempt_line attempt host port terr) # ls)))"

text \<open>The opt-in builds of the data plane.\<close>

datatype plane = No_plane | Selftest | Uplink

datatype outcome = Net_failed | No_host | Not_connected | Turn_ended sd_err | Ping_ended sd_err sd_msg_type

definition turn_line :: "string \<Rightarrow> string" where
  "turn_line answer = ''uplink: turn complete '' @ em_dash @ '' response: '' @ answer"

definition latency_line :: "uplink_metrics \<Rightarrow> string" where
  "latency_line m =
     ''uplink latency: capture='' @ decimal (unat (capture_ms m)) @ ''ms upload='' @ decimal (unat (upload_ms m)) @
     ''ms response='' @ decimal (unat (response_ms m)) @ ''ms total='' @ decimal (unat (total_ms m)) @
     ''ms (image '' @ decimal (sent_bytes m) @ ''B)''"

definition turn_failed_line :: "sd_err \<Rightarrow> string" where
  "turn_failed_line uerr =
     ''uplink: turn failed: '' @ sd_strerror uerr @ '' (capture is stubbed until -DSUDONIT_CAMERA_DRIVER=1)''"

fun msg_type_num :: "sd_msg_type \<Rightarrow> nat" where
  "msg_type_num SD_MSG_UNKNOWN = 0"
| "msg_type_num SD_MSG_PONG = 1"
| "msg_type_num SD_MSG_DEVICE_INFO = 2"
| "msg_type_num SD_MSG_AI_RESPONSE = 3"
| "msg_type_num SD_MSG_PLAY_AUDIO = 4"
| "msg_type_num SD_MSG_AUDIO_BEGIN = 5"
| "msg_type_num SD_MSG_ERROR = 6"

definition ping_line :: "sd_err \<Rightarrow> sd_msg_type \<Rightarrow> log_line" where
  "ping_line perr mtype =
     (if perr = SD_OK \<and> mtype = SD_MSG_PONG
      then (SD_LOG_INFO, ''app_main'', ''net self-test: ping/pong OK '' @ em_dash @ '' data plane is live'')
      else (SD_LOG_ERROR, ''app_main'', ''net self-test: no pong ('' @ sd_strerror perr @ '', type='' @ decimal (msg_type_num mtype) @ '')''))"

text \<open>
  What the connected plane does over the connection \<open>t\<close>: the turn with a 512-byte answer and
  metrics (which may not return, or be undefined), or the ping.
\<close>

definition run_plane ::
    "plane \<Rightarrow> build \<Rightarrow> 'd drivers \<Rightarrow> env \<Rightarrow> char list \<Rightarrow> sock option \<Rightarrow> 'd esp
       \<Rightarrow> (outcome \<times> 'd esp \<times> log_line list) option option" where
  "run_plane p b d env resp t h =
     (if p = Uplink then
        (case sd_device_run_uplink (esp_hal b d) wifi (env\<lparr>log_max := SD_LOG_DEBUG\<rparr>) (Some ''capture'')
                \<lparr>conn = t, response = Some resp, metrics = Some zero_metrics, dev = h, turn_log = []\<rparr> of
           None \<Rightarrow> None
         | Some None \<Rightarrow> Some None
         | Some (Some (uerr, s)) \<Rightarrow>
             Some (Some (Turn_ended uerr, dev s, turn_log s @
              (if uerr = SD_OK
               then [(SD_LOG_INFO, ''app_main'', turn_line (cstr (the (response s)))), (SD_LOG_INFO, ''app_main'', latency_line (the (metrics s)))]
               else [(SD_LOG_ERROR, ''app_main'', turn_failed_line uerr)]))))
      else (case sd_msg_send_ping wifi t of (perr, t) \<Rightarrow>
        case (if perr = SD_OK then (case sd_msg_recv wifi (al_recv env 0) (type_buf env 0) t None of
                (perr, mtype, txt0, t) \<Rightarrow> (perr, case mtype of None \<Rightarrow> SD_MSG_UNKNOWN | Some m \<Rightarrow> m))
              else (perr, SD_MSG_UNKNOWN)) of (perr, mtype) \<Rightarrow>
          Some (Some (Ping_ended perr mtype, h, [ping_line perr mtype]))))"

text \<open>The lines of the Wi-Fi bring-up stand between those of the boot.\<close>

definition data_plane ::
    "plane \<Rightarrow> build \<Rightarrow> 'd drivers \<Rightarrow> 'n netlib \<Rightarrow> env \<Rightarrow> net_event list \<Rightarrow> (nat \<Rightarrow> resolver \<times> bool) \<Rightarrow> (nat \<Rightarrow> sock) \<Rightarrow>
     char list \<Rightarrow> sd_config \<Rightarrow> 'n net \<Rightarrow> 'd esp \<Rightarrow> fd_table
       \<Rightarrow> (outcome \<times> 'n net \<times> 'd esp \<times> fd_table \<times> log_line list) option option" where
  "data_plane p b d L env evs net peer resp c n h ft =
     (let up = (SD_LOG_INFO, ''app_main'', ''data plane: bringing up Wi-Fi (net backend='' @ esp_net_backend @ '')'')
      in case sd_net_start L (Some c) evs (n\<lparr>net_log := []\<rparr>) of None \<Rightarrow> Some None
      | Some (err, n) \<Rightarrow>
          if err \<noteq> SD_OK then
            Some (Some (Net_failed, n, h, ft, up # net_log n @ [(SD_LOG_ERROR, ''app_main'', ''net self-test: Wi-Fi bring-up failed'')]))
          else if server_host c ! 0 = NUL then
            Some (Some (No_host, n, h, ft, up # net_log n @ [(SD_LOG_ERROR, ''app_main'', ''net self-test: no server_host configured'')]))
          else (case connect_retry net (cstr (server_host c)) (server_port c) [1, 2, 3, 4, 5] SD_ERR_IO ft of
                  (terr, t, ft, ms, ls) \<Rightarrow>
                    if terr \<noteq> SD_OK then
                      Some (Some (Not_connected, n, h, ft,
                        up # net_log n @ ls @ [(SD_LOG_ERROR, ''app_main'', ''data plane: could not connect after retries'')]))
                    else (case run_plane p b d env resp (Some (peer (the t))) h of
                            None \<Rightarrow> None
                          | Some None \<Rightarrow> Some None
                          | Some (Some (o1, h, ks)) \<Rightarrow>
                              Some (Some (o1, n, h, wifi_transport_close (map_option int t) ft, up # net_log n @ ls @ ks)))))"

text \<open>
  \<open>app_main\<close> and what it leaves behind. \<open>stdin\<close> is the input of the console in the builds that have
  one; \<open>c0\<close> and \<open>s0\<close> are uninitialised locals.
\<close>

record ('n, 'd, 's) boot =
  boot_log :: "log_line list"
  boot_config :: sd_config
  plane_end :: "outcome option"
  console_end :: "(session \<times> string) option"
  boot_nvs_part :: 's
  boot_net :: "'n net"
  boot_dev :: "'d esp"
  boot_fds :: fd_table

definition run_console ::
    "'s nvs_lib \<Rightarrow> session \<Rightarrow> string option \<Rightarrow> ('n, 'd, 's) boot \<Rightarrow> ('n, 'd, 's) boot" where
  "run_console N s0 stdin r =
     (case stdin of None \<Rightarrow> r
      | Some input \<Rightarrow>
          (case sd_provision_repl (nvs_store N) s0 input (boot_nvs_part r) of (s, shown, n) \<Rightarrow>
             r\<lparr>boot_log := boot_log r @ [(SD_LOG_INFO, ''app_main'', ''entering provisioning console (SUDONIT_PROVISION_CONSOLE)'')] @
                 sd_config_load_log (nvs_store N) (boot_nvs_part r) (Some (cfg s0)),
               console_end := Some (s, shown), boot_nvs_part := n\<rparr>))"

definition app_main ::
    "plane \<Rightarrow> build \<Rightarrow> 'd drivers \<Rightarrow> 'n netlib \<Rightarrow> 's nvs_lib \<Rightarrow> 's flash_lib \<Rightarrow> sd_config \<Rightarrow> session \<Rightarrow> env \<Rightarrow>
     net_event list \<Rightarrow> (nat \<Rightarrow> resolver \<times> bool) \<Rightarrow> (nat \<Rightarrow> sock) \<Rightarrow> char list \<Rightarrow> string option \<Rightarrow>
     's \<Rightarrow> 'n net \<Rightarrow> 'd esp \<Rightarrow> fd_table \<Rightarrow> ('n, 'd, 's) boot option option" where
  "app_main p b d L N F c0 s0 env evs net peer resp stdin s n h ft =
     (let s = boot_nvs F s;
          c = the (snd (sd_config_load (nvs_store N) s (Some c0)))
      in case sd_device_init (esp_hal b d) h of (e1, h, ls1) \<Rightarrow>
         case sd_device_capture_cycle (esp_hal b d) h
                (Some \<lparr>image_bytes = 0, image_width = 0, image_height = 0, battery_percent = 0\<rparr>) of (e2, st, h, ls2) \<Rightarrow>
           (let r = \<lparr>boot_log =
                       [(SD_LOG_INFO, ''app_main'', ''Sudonit Smart Glasses firmware '' @ em_dash @ '' ESP-IDF target boot''),
                        (SD_LOG_INFO, ''app_main'', backend_line b)] @ sd_config_load_log (nvs_store N) s (Some c0) @
                       [(SD_LOG_INFO, ''app_main'', config_line c)] @ ls1 @
                       [(SD_LOG_INFO, ''app_main'', ''device init: '' @ sd_strerror e1)] @ ls2 @
                       [(SD_LOG_INFO, ''app_main'', ''capture cycle: '' @ sd_strerror e2),
                        (SD_LOG_INFO, ''app_main'', ''boot complete '' @ em_dash @ '' peripheral drivers are stubs pending hardware'')],
                     boot_config = c, plane_end = None, console_end = None, boot_nvs_part = s, boot_net = n,
                     boot_dev = h, boot_fds = ft\<rparr>
            in if p = No_plane then Some (Some (run_console N s0 stdin r))
               else (case data_plane p b d L env evs net peer resp c n h ft of
                       None \<Rightarrow> None
                     | Some None \<Rightarrow> Some None
                     | Some (Some (o1, n, h, ft, ls)) \<Rightarrow>
                         Some (Some (run_console N s0 stdin
                           (r\<lparr>boot_log := boot_log r @ ls, plane_end := Some o1, boot_net := n, boot_dev := h,
                              boot_fds := ft\<rparr>))))))"

text \<open>A partition that is in order, for the witnesses.\<close>

definition flash_fine :: "byte list option flash_lib" where
  "flash_fine = \<lparr>nvs_flash_init = (\<lambda>s. (Flash_ok, s)), nvs_flash_erase = (\<lambda>s. None)\<rparr>"

section \<open>What the boot keeps\<close>

lemma os_table_ok:
  "fds_ok ft \<Longrightarrow> fds_ok (snd (os_socket ft))" "fds_ok ft \<Longrightarrow> fds_ok (os_close fd ft)"
  by (auto simp: fds_ok_def os_socket_def os_close_def)

lemma attempt_ok: "connect_with_timeout fd ai ft = (rc, ft') \<Longrightarrow> fds_ok ft \<Longrightarrow> fds_ok ft'"
  using connect_keeps [of fd ai ft rc ft'] by (simp add: fds_ok_def)

lemma connect_loop_ok: "fds_ok ft \<Longrightarrow> fds_ok (snd (connect_loop ais ft))"
proof (induction ais arbitrary: ft)
  case (Cons ai ais)
  then show ?case
    using os_table_ok(1) [of ft] os_table_ok(2) attempt_ok by (fastforce split: prod.splits)
qed simp

lemma wifi_connect_ok: "fds_ok ft \<Longrightarrow> fds_ok (snd (snd (wifi_transport_connect resolve alloc out host port ft)))"
proof -
  assume ft: "fds_ok ft"
  have l: "fds_ok ft'" if "connect_loop ais ft = (r, ft')" for ais r ft'
    using connect_loop_ok [OF ft, of ais] that by simp
  have k: "fds_ok (set_io_timeouts fd ft) = fds_ok ft" for fd ft by (simp add: fds_ok_def)
  show ?thesis
    using ft os_table_ok(2) unfolding wifi_transport_connect_def wifi_connect_eqs
    by (auto simp: k Let_def simp del: connect_loop.simps dest!: l split: option.splits list.splits prod.splits)
qed

text \<open>The retries open nothing but the handle they return, and wait at most for all their attempts.\<close>

lemma retry_result:
  "connect_retry net host port as terr ft = (e, t, ft', ms, ls) \<Longrightarrow> fds_ok ft \<Longrightarrow> terr \<noteq> SD_OK \<Longrightarrow>
     ms \<le> 1000 * sum_list as \<and>
     (if e = SD_OK then \<exists>fd. t = Some fd \<and> open_fds (wifi_transport_close (Some (int fd)) ft') = open_fds ft
      else t = None \<and> open_fds ft' = open_fds ft)"
proof (induction as arbitrary: terr ft ms ls)
  case (Cons a as)
  obtain e1 t1 ft1 where c: "wifi_transport_connect (fst (net a)) (snd (net a)) True (Some host) port ft = (e1, t1, ft1)"
    by (cases "wifi_transport_connect (fst (net a)) (snd (net a)) True (Some host) port ft") auto
  have ok: "fds_ok ft1" using wifi_connect_ok [OF Cons.prems(2)] c by (metis snd_conv)
  note fds = wifi_connect_fds [OF Cons.prems(2) c]
  show ?case
  proof (cases "e1 = SD_OK")
    case True
    then show ?thesis using Cons.prems(1) c fds by auto
  next
    case False
    obtain ms' ls' where r: "connect_retry net host port as e1 ft1 = (e, t, ft', ms', ls')" "ms = 1000 * a + ms'"
      using Cons.prems(1) c False by (auto split: prod.splits)
    have "open_fds ft1 = open_fds ft" using fds False by simp
    then show ?thesis using Cons.IH [OF r(1) ok False] r(2) by auto
  qed
qed simp

lemma run_plane_releases:
  assumes "env_ok env" and "balanced h"
  shows "\<exists>r. run_plane p b d env resp t h = Some r \<and>
    (\<forall>o1 h' ls. r = Some (o1, h', ls) \<longrightarrow> balanced h' \<and> esp_live b h' = esp_live b h)"
proof (cases "p = Uplink")
  case True
  let ?env = "env\<lparr>log_max := SD_LOG_DEBUG\<rparr>"
  define s where "s = \<lparr>conn = t, response = Some resp, metrics = Some zero_metrics, dev = h, turn_log = []\<rparr>"
  obtain r where "sd_device_run_uplink (esp_hal b d) wifi ?env (Some ''capture'') s = Some r"
      "\<forall>e s'. r = Some (e, s') \<longrightarrow> esp_live b (dev s') = esp_live b h \<and> balanced (dev s')"
    using esp.run_uplink_returns [of ?env b d "Some ''capture''" s] assms by (auto simp: s_def)
  then show ?thesis using True by (cases r) (auto simp: run_plane_def s_def)
next
  case False
  then show ?thesis using assms(2) by (auto simp: run_plane_def split: prod.splits)
qed

lemma data_plane_releases:
  assumes "env_ok env" and "fds_ok ft" and "balanced h"
  shows "\<exists>r. data_plane p b d L env evs net peer resp c n h ft = Some r \<and>
    (\<forall>o1 n' h' ft' ls. r = Some (o1, n', h', ft', ls) \<longrightarrow>
       open_fds ft' = open_fds ft \<and> balanced h' \<and> esp_live b h' = esp_live b h)"
proof (cases "sd_net_start L (Some c) evs (n\<lparr>net_log := []\<rparr>)")
  case None
  then show ?thesis by (simp add: data_plane_def)
next
  case (Some r)
  obtain err n1 where n1: "sd_net_start L (Some c) evs (n\<lparr>net_log := []\<rparr>) = Some (err, n1)" using Some by (cases r) auto
  obtain terr t ft1 ms ls where q: "connect_retry net (cstr (server_host c)) (server_port c) [1, 2, 3, 4, 5] SD_ERR_IO ft =
      (terr, t, ft1, ms, ls)"
    by (cases "connect_retry net (cstr (server_host c)) (server_port c) [1, 2, 3, 4, 5] SD_ERR_IO ft") auto
  note fds = retry_result [OF q assms(2)]
  obtain r1 where r1: "run_plane p b d env resp (Some (peer (the t))) h = Some r1"
      "\<forall>o1 h' ls. r1 = Some (o1, h', ls) \<longrightarrow> balanced h' \<and> esp_live b h' = esp_live b h"
    using run_plane_releases [OF assms(1,3)] by blast
  show ?thesis
    using n1 q fds r1 assms(3) by (cases r1) (auto simp: data_plane_def Let_def)
qed

context device
begin

lemma init_frame: "sd_device_init hal h = (e, h', ls) \<Longrightarrow> live h' = live h \<and> (sane h \<longrightarrow> sane h')"
  by (auto simp: sd_device_init_def dest!: init battery split: prod.splits if_splits)

end

lemma run_console_keeps [simp]:
  "boot_config (run_console N s0 inp r) = boot_config r" "boot_dev (run_console N s0 inp r) = boot_dev r"
  "boot_fds (run_console N s0 inp r) = boot_fds r" "plane_end (run_console N s0 inp r) = plane_end r"
  "set (boot_log r) \<subseteq> set (boot_log (run_console N s0 inp r))"
  by (auto simp: run_console_def split: option.splits prod.splits)



section \<open>What the next boot finds, and what the log shows\<close>

text \<open>Every boot that returns loads the configuration of its partition and ends with the console.\<close>

lemma app_main_parts:
  assumes "app_main p b d L N F c0 s0 env evs net peer resp inp s n h ft = Some (Some k)"
  shows "boot_config k = the (snd (sd_config_load (nvs_store N) (boot_nvs F s) (Some c0)))"
    and "(SD_LOG_INFO, ''app_main'', config_line (boot_config k)) \<in> set (boot_log k)"
    and "console_end k = map_option (\<lambda>i. case sd_provision_repl (nvs_store N) s0 i (boot_nvs F s) of (q, shown, s') \<Rightarrow> (q, shown)) inp"
    and "boot_nvs_part k = (case inp of None \<Rightarrow> boot_nvs F s
       | Some i \<Rightarrow> snd (snd (sd_provision_repl (nvs_store N) s0 i (boot_nvs F s))))"
  using assms
  by (auto simp: app_main_def run_console_def Let_def split: prod.splits option.splits if_splits)

text \<open>
  A partition on which every write succeeds, in terms of the library's calls: it is \<open>sound\<close>, and
  opening for writing, setting and committing return \<open>ESP_OK\<close> and lead to such a partition.
\<close>

definition nvs_works :: "'s nvs_lib \<Rightarrow> ('s \<Rightarrow> bool) \<Rightarrow> ('s \<Rightarrow> bool) \<Rightarrow> bool" where
  "nvs_works N sound works \<longleftrightarrow>
     (\<forall>n. works n \<longrightarrow> sound n \<and> fst (nvs_open_rw N n) = ESP_OK \<and> works (snd (nvs_open_rw N n)) \<and>
        (\<forall>b. fst (nvs_set_blob N n b) = ESP_OK \<and> works (snd (nvs_set_blob N n b))) \<and>
        fst (nvs_commit N n) = ESP_OK \<and> works (snd (nvs_commit N n)))"

lemma nvs_reliable_store:
  assumes "nvs_documented N held sound" and "nvs_works N sound works"
  shows "reliable_store (nvs_store N) held sound works"
proof (intro reliable_store.intro reliable_store_axioms.intro nvs_config_store [OF assms(1)])
  note w = assms(2) [unfolded nvs_works_def, rule_format]
  show "sound s" if "works s" for s using w that by blast
  fix s b e s' assume "works s" and r: "st_write (nvs_store N) s b = (e, s')"
  obtain e1 n1 where o: "nvs_open_rw N s = (e1, n1)" by (cases "nvs_open_rw N s")
  obtain e2 n2 where t: "nvs_set_blob N n1 b = (e2, n2)" by (cases "nvs_set_blob N n1 b")
  obtain e3 n3 where c: "nvs_commit N n2 = (e3, n3)" by (cases "nvs_commit N n2")
  have 1: "e1 = ESP_OK" "works n1" using w [OF \<open>works s\<close>] o by auto
  then have 2: "e2 = ESP_OK" "works n2" using w [OF 1(2)] t by (metis fst_conv, metis snd_conv)
  then have 3: "e3 = ESP_OK" "works n3" using w [OF 2(2)] c by auto
  show "e = SD_OK \<and> works s'"
    using r o t c 1 2 3 by (simp add: nvs_store_def nvs_store_write_def)
qed

text \<open>
  C6: provisioning over the serial console takes effect at the next boot: when a session of a boot
  with the console ends with no unsaved changes, the next boot (of any build) runs with exactly
  that configuration, which is well-formed, and reports it in its log.
\<close>

theorem app_main_provisioned:
  assumes "nvs_documented N held sound" and "nvs_works N sound works" and "works (boot_nvs F s)"
    and "app_main p b d L N F c0 s0 env evs net peer resp (Some input) s n h ft = Some (Some k)"
    and "console_end k = Some (q, shown)" and "\<not> dirty q"
    and "nvs_flash_init F (boot_nvs_part k) = (Flash_ok, boot_nvs_part k)"
    and "app_main p2 b2 d2 L2 N F c2 s2 env2 evs2 net2 peer2 resp2 inp2 (boot_nvs_part k) n2 h2 ft2 = Some (Some k2)"
  shows "boot_config k2 = cfg q \<and> config_ok (cfg q) \<and> (SD_LOG_INFO, ''app_main'', config_line (cfg q)) \<in> set (boot_log k2)"
proof -
  obtain part where r: "sd_provision_repl (nvs_store N) s0 input (boot_nvs F s) = (q, shown, part)"
      and k: "boot_nvs_part k = part"
    using app_main_parts(3,4) [OF assms(4)] assms(5) by (auto split: prod.splits)
  note saved = reliable_store.repl_saved [OF nvs_reliable_store [OF assms(1,2)] r assms(3)]
  have "boot_nvs F part = part" using assms(7) k by (simp add: boot_nvs_def)
  then have "boot_config k2 = cfg q"
    using app_main_parts(1) [OF assms(8)] saved assms(6) k by simp
  then show ?thesis using app_main_parts(2) [OF assms(8)] saved by simp
qed

text \<open>A boot without a data plane always returns.\<close>

lemma app_main_plain:
  "\<exists>k. app_main No_plane b d L N F c0 s0 env evs net peer resp inp s n h ft = Some (Some k)"
  by (auto simp: app_main_def Let_def split: prod.splits)

definition typed :: string where
  "typed = ''set server_host 10.0.0.7'' @ [LF] @ ''save'' @ [LF]"

lemma typed_saves:
  "dirty (fst (sd_provision_repl (nvs_store flash) shop typed None)) = False \<and>
   cstr (server_host (cfg (fst (sd_provision_repl (nvs_store flash) shop typed None)))) = ''10.0.0.7''"
  by code_simp

theorem app_main_provisioned_witness:
  "\<exists>k k2. app_main No_plane full_build good_drivers good_net flash flash_fine sd_config_defaults shop sample_env []
      (\<lambda>a. (\<lambda>_ _ _. None, True)) (\<lambda>fd. speech_sock) (replicate 512 NUL) (Some typed) None (net_boot 0) (esp_boot ())
      os_table = Some (Some k) \<and>
    app_main No_plane full_build good_drivers good_net flash flash_fine sd_config_defaults shop sample_env []
      (\<lambda>a. (\<lambda>_ _ _. None, True)) (\<lambda>fd. speech_sock) (replicate 512 NUL) None (boot_nvs_part k) (net_boot 0) (esp_boot ())
      os_table = Some (Some k2) \<and>
    cstr (server_host (boot_config k2)) = ''10.0.0.7''"
proof -
  let ?boot = "\<lambda>i part. app_main No_plane full_build good_drivers good_net flash flash_fine sd_config_defaults shop sample_env []
      (\<lambda>a. (\<lambda>_ _ _. None, True)) (\<lambda>fd. speech_sock) (replicate 512 NUL) i part (net_boot 0) (esp_boot ()) os_table"
  have works: "nvs_works flash (\<lambda>n. True) (\<lambda>n. True)" by (simp add: nvs_works_def flash_def)
  have part: "boot_nvs flash_fine n = n" for n by (simp add: boot_nvs_def flash_fine_def)
  obtain k where k: "?boot (Some typed) None = Some (Some k)" by (rule exE [OF app_main_plain])
  obtain k2 where k2: "?boot None (boot_nvs_part k) = Some (Some k2)" by (rule exE [OF app_main_plain])
  obtain q shown part where r: "sd_provision_repl (nvs_store flash) shop typed None = (q, shown, part)"
    by (cases "sd_provision_repl (nvs_store flash) shop typed None") auto
  have q: "console_end k = Some (q, shown)" using app_main_parts(3) [OF k] r by (simp add: part)
  have d: "\<not> dirty q" "cstr (server_host (cfg q)) = ''10.0.0.7''" using typed_saves r by simp_all
  have "nvs_flash_init flash_fine n = (Flash_ok, n)" for n by (simp add: flash_fine_def)
  from app_main_provisioned [OF flash_documented works _ k q d(1) this k2] d(2) k k2 show ?thesis by auto
qed

text \<open>
  The answer of \<open>esp_wifi_set_config\<close> is whether the configuration was stored; whether the network accepts
  the password is told by the events.
\<close>

definition password_blind :: "'n netlib \<Rightarrow> bool" where
  "password_blind L \<longleftrightarrow> (\<forall>l v w. sta_ssid v = sta_ssid w \<longrightarrow> esp_wifi_set_config L l v = esp_wifi_set_config L l w)"

lemma starting_text_secret: "alike_cfg c d \<Longrightarrow> starting_text d = starting_text c"
  by (auto simp: starting_text_def alike_cfg_fields)

lemma net_start_blind:
  assumes "password_blind L" and "alike_cfg c d"
  shows "sd_net_start L (Some d) evs n = sd_net_start L (Some c) evs n"
proof -
  have set: "(\<lambda>l. esp_wifi_set_config L l (sta_config d)) = (\<lambda>l. esp_wifi_set_config L l (sta_config c))"
    using assms(1) alike_cfg_fields(1) [OF assms(2)] unfolding password_blind_def by (auto simp: sta_config_def)
  show ?thesis
    unfolding sd_net_start_def option.case set alike_cfg_fields(1) [OF assms(2)] starting_text_secret [OF assms(2)] by (rule refl)
qed

lemma config_line_secret: "alike_cfg c d \<Longrightarrow> config_line d = config_line c"
  by (auto simp: config_line_def alike_cfg_fields)

lemma data_plane_blind:
  assumes "password_blind L" and "alike_cfg c d"
  shows "data_plane p b dr L env evs net peer resp d n h ft = data_plane p b dr L env evs net peer resp c n h ft"
  unfolding data_plane_def net_start_blind [OF assms] alike_cfg_fields(2,4) [OF assms(2)] by (rule refl)



section \<open>The host's demo\<close>

definition cycle_line :: "nat \<Rightarrow> device_status \<Rightarrow> string" where
  "cycle_line i st =
     ''cycle '' @ decimal i @ '': image='' @ decimal (image_bytes st) @ '' bytes ('' @
     decimal (unat (image_width st)) @ ''x'' @ decimal (unat (image_height st)) @ ''), battery='' @
     decimal (unat (battery_percent st)) @ ''%'' @ [LF]"

fun host_cycles :: "'h hal_ops \<Rightarrow> 'h \<Rightarrow> nat list \<Rightarrow> int \<times> string \<times> 'h \<times> log_line list" where
  "host_cycles hal h [] = (0, [], h, [])"
| "host_cycles hal h (i # is) =
     (case sd_device_capture_cycle hal h
             (Some \<lparr>image_bytes = 0, image_width = 0, image_height = 0, battery_percent = 0\<rparr>) of (err, st, h, ls) \<Rightarrow>
        if err \<noteq> SD_OK then (1, [], h, ls)
        else (case host_cycles hal h is of (code1, out1, h, ls1) \<Rightarrow>
                (code1, cycle_line i (the st) @ out1, h, ls @ ls1)))"

text \<open>The exit code, what is printed on the two streams, and the peripherals.\<close>

definition host_main :: "'h hal_ops \<Rightarrow> 'h \<Rightarrow> int \<times> string \<times> string \<times> 'h" where
  "host_main hal h =
     (case sd_device_init hal h of (err, h, ls) \<Rightarrow>
        if err \<noteq> SD_OK then (1, [], log_text SD_LOG_DEBUG ls, h)
        else (case host_cycles hal h [0, 1, 2] of (code1, out1, h, ls1) \<Rightarrow>
                (code1, out1, log_text SD_LOG_DEBUG (ls @ ls1), h)))"

text \<open>The percentage the mock reports for the value of \<open>SUDONIT_MOCK_BATTERY\<close>.\<close>

definition mock_percent :: "string option \<Rightarrow> nat" where
  "mock_percent v = (case v of None \<Rightarrow> 87 | Some s \<Rightarrow> nat (min 100 (max 0 (atoi s))))"

text \<open>The line of a capture cycle on the mocks.\<close>

definition mock_captured_line :: "nat \<Rightarrow> log_line" where
  "mock_captured_line percent =
     dev_log SD_LOG_INFO (''captured 64x48 image/x-mock-rgb (9216 bytes), battery '' @ decimal percent @ ''%'')"

lemma mock_cycle:
  assumes "cam_initialized h" "cam_mem h = []"
  shows "sd_device_capture_cycle mock_hal h (Some st) =
    (SD_OK, Some \<lparr>image_bytes = 9216, image_width = 64, image_height = 48, battery_percent = s_percent h\<rparr>, h,
     [mock_captured_line (unat (s_percent h))])"
proof -
  have "length mock_pixels = 9216"
    by (simp add: mock_pixels_def length_concat comp_def sum_list_triv MOCK_W_def MOCK_H_def)
  moreover have "decimal 9216 = ''9216''" "decimal 64 = ''64''" "decimal 48 = ''48''"
    by (simp_all add: decimal.simps digit_char_def char_of_eq)
  ultimately show ?thesis
    using assms
    by (cases st) (simp add: sd_device_capture_cycle_def mock_battery_read_def mock_hal_def mock_capture_def mock_release_def
        backend_log_def captured_line_def image_text_def mock_captured_line_def MOCK_W_def MOCK_H_def Let_def)
qed

lemma mock_init:
  "\<exists>h. sd_device_init mock_hal (mock_boot [] v) = (SD_OK, h, [initialized_line ''mock'' ''mock'']) \<and> cam_initialized h \<and> cam_mem h = [] \<and>
     cam_live h = 0 \<and> unat (s_percent h) = mock_percent v"
proof -
  have "unat (word_of_int x :: 8 word) = nat x" if "0 \<le> x" "x \<le> 100" for x
    using that by (simp add: unat_eq_nat_uint uint_word_of_int)
  then show ?thesis
    by (auto simp: sd_device_init_def mock_camera_init_def mock_battery_init_def mock_boot_def mock_percent_def
        DEFAULT_PERCENT_def Let_def split: option.splits)
qed

text \<open>
  The demo runs its three cycles and reports for each the mock's image and the percentage of
  \<open>SUDONIT_MOCK_BATTERY\<close>, clamped to 0 to 100 (87 without it), and exits with 0; its log has the
  initialisation and the three captures.
\<close>

theorem host_main_output:
  "\<exists>h. host_main mock_hal (mock_boot [] v) =
     (0, concat (map (\<lambda>i. ''cycle '' @ decimal i @ '': image=9216 bytes (64x48), battery='' @
           decimal (mock_percent v) @ ''%'' @ [LF]) [0, 1, 2]),
      log_text SD_LOG_DEBUG (initialized_line ''mock'' ''mock'' # replicate 3 (mock_captured_line (mock_percent v))), h) \<and>
    cam_live h = 0"
proof -
  obtain h where h: "sd_device_init mock_hal (mock_boot [] v) = (SD_OK, h, [initialized_line ''mock'' ''mock''])" "cam_initialized h" "cam_mem h = []"
      "cam_live h = 0" "unat (s_percent h) = mock_percent v"
    using mock_init by blast
  define st where "st = \<lparr>image_bytes = 9216, image_width = 64, image_height = 48, battery_percent = s_percent h\<rparr>"
  have "decimal 9216 = ''9216''" "decimal 64 = ''64''" "decimal 48 = ''48''"
    by (simp_all add: decimal.simps digit_char_def char_of_eq)
  then have line: "cycle_line i st = ''cycle '' @ decimal i @ '': image=9216 bytes (64x48), battery='' @
      decimal (mock_percent v) @ ''%'' @ [LF]" for i
    using h(5) by (simp add: cycle_line_def st_def)
  have "host_cycles mock_hal h is = (0, concat (map (\<lambda>i. cycle_line i st) is), h,
      replicate (length is) (mock_captured_line (mock_percent v)))" for "is"
    by (induction "is") (simp_all add: mock_cycle [OF h(2,3)] st_def h(5))
  moreover have "replicate 3 l = [l, l, l]" for l :: log_line by (simp add: numeral_eq_Suc)
  ultimately show ?thesis using h(1,4) line by (simp add: host_main_def del: host_cycles.simps)
qed

section \<open>The interoperability client\<close>

text \<open>
  \<open>peer fd\<close> is the kernel's script for the connection of descriptor \<open>fd\<close>, \<open>resp\<close> and \<open>c0\<close> the
  uninitialised locals. \<open>None\<close> and \<open>Some None\<close> are as for the turn. A run is the exit code, what it
  prints on the two streams, the peripherals and the descriptors.
\<close>

definition interop_host :: "string list \<Rightarrow> sd_config \<Rightarrow> string" where
  "interop_host argv c =
     (if length argv > 1 then argv ! 1
      else if server_host c ! 0 \<noteq> NUL then cstr (server_host c) else ''127.0.0.1'')"

definition interop_port :: "string list \<Rightarrow> sd_config \<Rightarrow> 16 word" where
  "interop_port argv c = (if length argv > 2 then word_of_int (atoi (argv ! 2)) else server_port c)"

definition no_server_text :: "string \<Rightarrow> 16 word \<Rightarrow> string" where
  "no_server_text host port =
     ''could not connect to phone at '' @ host @ '':'' @ decimal (unat port) @ '' '' @
     em_dash @ '' is '' @ [CHR 0x60] @ ''python -m phone.server'' @ [CHR 0x60] @ '' running?'' @ [LF]"

definition interop_report :: "string \<Rightarrow> nat \<Rightarrow> uplink_metrics \<Rightarrow> string" where
  "interop_report answer frames m =
     ''PHONE RESPONSE: '' @ answer @ [LF] @
     ''[interop] audio_frames='' @ decimal frames @ [LF] @
     ''[interop] capture_ms='' @ decimal (unat (capture_ms m)) @ '' upload_ms='' @ decimal (unat (upload_ms m)) @
     '' response_ms='' @ decimal (unat (response_ms m)) @ '' total_ms='' @ decimal (unat (total_ms m)) @
     '' image_bytes='' @ decimal (sent_bytes m) @ '' response_bytes='' @ decimal (response_bytes m) @ [LF]"

definition interop_line :: "string \<Rightarrow> 16 word \<Rightarrow> sd_config \<Rightarrow> log_line" where
  "interop_line host port c =
     (SD_LOG_INFO, ''interop'', ''device='' @ cstr (device_name c) @ '' server='' @ host @ '':'' @ decimal (unat port))"

text \<open>What the client logs over a complete turn.\<close>

definition interop_log :: "string \<Rightarrow> 16 word \<Rightarrow> sd_config \<Rightarrow> string \<Rightarrow> nat \<Rightarrow> nat \<Rightarrow> nat \<Rightarrow> log_line list" where
  "interop_log host port c answer frames rate ch =
     [interop_line host port c, initialized_line ''mock'' ''mock'',
      dev_log SD_LOG_INFO ''uplink: captured 64x48 image/x-mock-rgb (9216 bytes)'', answer_line answer,
      played_line frames (of_nat rate) (of_nat ch)]"

definition interop_main ::
    "'s store_ops \<Rightarrow> resolver \<Rightarrow> bool \<Rightarrow> (nat \<Rightarrow> sock) \<Rightarrow> env \<Rightarrow> char list \<Rightarrow> sd_config \<Rightarrow> string list \<Rightarrow> 's \<Rightarrow> mock \<Rightarrow> fd_table
       \<Rightarrow> (int \<times> string \<times> string \<times> mock \<times> fd_table) option option" where
  "interop_main st resolve alloc peer env resp c0 argv s h ft =
     (let c = the (snd (sd_config_load st s (Some c0)));
          host = interop_host argv c; port = interop_port argv c
      in case sd_device_init mock_hal h of (err, h, ls1) \<Rightarrow>
         let ls = sd_config_load_log st s (Some c0) @ [interop_line host port c] @ ls1
         in
           if err \<noteq> SD_OK then Some (Some (1, [], log_text SD_LOG_INFO ls, h, ft))
           else (case sd_transport_connect resolve alloc True (Some host) port ft of (err, t, ft) \<Rightarrow>
             if err \<noteq> SD_OK then Some (Some (1, [], log_text SD_LOG_INFO ls @ no_server_text host port, h, ft))
             else (case sd_device_run_uplink mock_hal tcp (env\<lparr>log_max := SD_LOG_INFO\<rparr>) (Some ''capture'')
                      \<lparr>conn = Some (peer (the t)), response = Some resp, metrics = Some zero_metrics, dev = h, turn_log = ls\<rparr> of
                None \<Rightarrow> None
              | Some None \<Rightarrow> Some None
              | Some (Some (err, u)) \<Rightarrow>
                  (let ft = sd_transport_close (map_option int t) ft
                   in if err \<noteq> SD_OK
                      then Some (Some (1, [], log_text SD_LOG_INFO (turn_log u) @ ''uplink failed: '' @ sd_strerror err @ [LF], dev u, ft))
                      else Some (Some (0, interop_report (cstr (the (response u))) (s_frames_played (dev u)) (the (metrics u)),
                                       log_text SD_LOG_INFO (turn_log u), dev u, ft))))))"

text \<open>
  C8: when the phone answers and speaks, the client exits with 0, prints the phone's answer (cut to
  its buffer of 1024 bytes, so whole), the number of frames played and the sizes, logs the turn, and
  leaves no descriptor and no image buffer behind.
\<close>

theorem interop_main_reports:
  assumes "env_ok env" "al_image env" "al_recv env 0" "al_recv env 1" "al_pcm env" "al_frame env"
    and "length resp = 1024" and "fds_ok ft" and "sd_transport_connect resolve True True
      (Some (interop_host argv (the (snd (sd_config_load host_store fs (Some c0))))))
      (interop_port argv (the (snd (sd_config_load host_store fs (Some c0))))) ft = (SD_OK, Some fd, ftc)"
    and "tx (peer fd) = []" and "stream (rx (peer fd)) = encode_frame SD_KIND_JSON (message_payload afs) @
      encode_frame SD_KIND_JSON (message_payload bs) @
      encode_all SD_KIND_BINARY (numbered 0 (chunked pcm)) @ encode_frame SD_KIND_JSON m @ rest"
    and "answers afs v" "announces bs pcm rate ch"
    and "pcm \<noteq> []" "length pcm < 2 ^ 32" "0 < rate" "rate < 2 ^ 32" "0 < ch" "ch < 256"
    and "length m \<le> 4 + SD_CHUNK_SIZE"
  shows "\<exists>k h' ft'. interop_main host_store resolve True peer env resp c0 argv fs (mock_boot [] bat) ft =
      Some (Some (0, interop_report (utf8_all v) (length pcm div (2 * ch)) k,
        log_text SD_LOG_INFO (sd_config_load_log host_store fs (Some c0) @
          interop_log (interop_host argv (the (snd (sd_config_load host_store fs (Some c0)))))
            (interop_port argv (the (snd (sd_config_load host_store fs (Some c0)))))
            (the (snd (sd_config_load host_store fs (Some c0)))) (utf8_all v) (length pcm div (2 * ch)) rate ch),
        h', ft')) \<and>
    sent_bytes k = 9216 \<and> response_bytes k = length (utf8_all v) \<and> cam_live h' = 0 \<and> open_fds ft' = open_fds ft"
proof -
  let ?c = "the (snd (sd_config_load host_store fs (Some c0)))" and ?env = "env\<lparr>log_max := SD_LOG_INFO\<rparr>"
  obtain h where h: "sd_device_init mock_hal (mock_boot [] bat) = (SD_OK, h, [initialized_line ''mock'' ''mock''])" "cam_initialized h" "cam_mem h = []"
      "cam_live h = 0"
    using mock_init by blast
  obtain img h1 where cap: "h_capture mock_hal h zero_image = (SD_OK, img, h1)" "img_data img = Mem mock_pixels"
      "media_type img = Some ''image/x-mock-rgb''" "h_release mock_hal h1 img = (img\<lparr>img_data := Null 0\<rparr>, h)"
      and img: "image_text img = ''captured 64x48 image/x-mock-rgb (9216 bytes)''"
    using mock_captures [OF h(2,3)] by blast
  obtain h2 where pl: "played mock_hal h pcm rate ch = (SD_OK, h2)" "cam_live h2 = 0"
      "s_frames_played h2 = length pcm div (2 * ch)"
      "played_log mock_hal h pcm rate ch = [played_line (length pcm div (2 * ch)) (of_nat rate) (of_nat ch)]"
    using mock_plays [OF assms(16-19), of h pcm] h(4) by auto
  define ls where "ls = sd_config_load_log host_store fs (Some c0) @ [interop_line (interop_host argv ?c) (interop_port argv ?c) ?c] @
      [initialized_line ''mock'' ''mock'']"
  define s where "s = \<lparr>conn = Some (peer fd), response = Some resp, metrics = Some zero_metrics, dev = h, turn_log = ls\<rparr>"
  have s: "tcp_ready (conn s)" "response s = Some resp" "resp \<noteq> []" "dev s = h" "tcp_incoming (conn s) = stream (rx (peer fd))"
    using assms(7,10) by (auto simp: s_def tcp_ready_def tcp_state)
  have len: "length mock_pixels = 9216"
    by (simp add: mock_pixels_def length_concat comp_def sum_list_triv MOCK_W_def MOCK_H_def)
  have nm: "length ''capture'' < 50" by simp
  have env: "env_ok ?env" "al_image ?env" "al_recv ?env 0" "al_recv ?env 1" "al_pcm ?env" "al_frame ?env"
    using assms(1-6) by simp_all
  obtain u where u: "sd_device_run_uplink mock_hal tcp ?env (Some ''capture'') s = Some (Some (SD_OK, u))" "dev u = h2"
      "response u = Some (answered (utf8_all v) resp)"
      "\<exists>k. metrics u = Some k \<and> sent_bytes k = 9216 \<and> response_bytes k = length (utf8_all v)"
      and log: "turn_log u = ls @ [uplink_captured_line img, answer_line (utf8_all v),
        played_line (length pcm div (2 * ch)) (of_nat rate) (of_nat ch)]"
    using dev.turn_complete [OF env s(1-3) cap [folded s(4)] image_names_fit [OF nm] assms(11) [folded s(5)]
        assms(12-15,18-20)] pl(1,4) s(4) len
    by (auto simp: s_def)
  have "nul_free (utf8_all v)" "length (utf8_all v) < 1024"
    using assms(12) nul_free_utf8_all by (auto simp: answers_def)
  then have "cstr (answered (utf8_all v) resp) = utf8_all v" using assms(7) by (simp add: answered_def Let_def)
  moreover have "open_fds (sd_transport_close (Some (int fd)) ftc) = open_fds ft"
    using connect_fds [OF assms(8,9)] by auto
  ultimately show ?thesis
    using h(1) assms(9) u pl(2,3) log img
    by (auto simp: interop_main_def interop_log_def uplink_captured_line_def Let_def ls_def s_def)
qed

lemma connect_good:
  "\<exists>ftc. sd_transport_connect (\<lambda>_ _ _. Some [good_address]) True True (Some host) port os_table = (SD_OK, Some 3, ftc)"
  by (simp add: sd_transport_connect_def sample_net os_socket_def connect_with_timeout_def set_nonblock_def Let_def)

definition sample_log :: string where
  "sample_log = ''[I][config] no stored config; using defaults'' @ [LF] @
     ''[I][interop] device=sudonit-glasses server=127.0.0.1:8765'' @ [LF] @
     ''[I][device] initialized (camera=mock battery=mock)'' @ [LF] @
     ''[I][device] uplink: captured 64x48 image/x-mock-rgb (9216 bytes)'' @ [LF] @
     ''[I][device] uplink: ai_response: Hi'' @ [LF] @
     ''[I][device] uplink: played 2 audio frames (24000 Hz, 1 ch)'' @ [LF]"

lemma sample_log:
  "log_text SD_LOG_INFO (sd_config_load_log host_store empty_fs (Some sd_config_defaults) @
     interop_log (interop_host [''device_interop''] (the (snd (sd_config_load host_store empty_fs (Some sd_config_defaults)))))
       (interop_port [''device_interop''] (the (snd (sd_config_load host_store empty_fs (Some sd_config_defaults)))))
       (the (snd (sd_config_load host_store empty_fs (Some sd_config_defaults))))
       (utf8_all (codes ''Hi'')) (length [1, 2, 3, 4 :: byte] div (2 * 1)) 24000 1) = sample_log"
proof -
  have load: "sd_config_load host_store empty_fs (Some sd_config_defaults) = (SD_OK, Some sd_config_defaults)"
      "sd_config_load_log host_store empty_fs (Some sd_config_defaults) =
        [(SD_LOG_INFO, ''config'', ''no stored config; using defaults'')]"
    by (simp_all add: sd_config_load_def sd_config_load_log_def host_store_def host_store_read_def empty_fs_def)
  have name: "cstr (device_name sd_config_defaults) = ''sudonit-glasses''" by code_simp
  have host: "interop_host [''device_interop''] sd_config_defaults = ''127.0.0.1''"
      "interop_port [''device_interop''] sd_config_defaults = 8765"
    by (simp_all add: interop_host_def interop_port_def sd_config_defaults_def field_sizes Let_def)
  have hi: "utf8_all [72, 105] = ''Hi''" by code_simp
  have dec: "decimal 8765 = ''8765''" "decimal (Suc (Suc 0)) = ''2''" "decimal 24000 = ''24000''" "decimal (Suc 0) = ''1''"
    by (simp_all add: decimal.simps digit_char_def char_of_eq)
  show ?thesis
    by (simp add: load name host hi dec sample_log_def interop_log_def interop_line_def initialized_line_def
        answer_line_def played_line_def log_text_def sd_log_def logger_init_def sd_log_set_level_def)
qed

theorem interop_main_reports_witness:
  "\<exists>k h' ft'. interop_main host_store (\<lambda>_ _ _. Some [good_address]) True
      (\<lambda>fd. spoken_sock) sample_env (replicate 1024 NUL) sd_config_defaults [''device_interop''] empty_fs (mock_boot [] None)
      os_table =
      Some (Some (0, interop_report (utf8_all (codes ''Hi'')) (length [1, 2, 3, 4 :: byte] div (2 * 1)) k, sample_log, h', ft')) \<and>
    sent_bytes k = 9216 \<and> response_bytes k = length (utf8_all (codes ''Hi'')) \<and> cam_live h' = 0 \<and>
    open_fds ft' = open_fds os_table"
proof -
  obtain ftc where c: "sd_transport_connect (\<lambda>_ _ _. Some [good_address]) True True
      (Some (interop_host [''device_interop''] (the (snd (sd_config_load host_store empty_fs (Some sd_config_defaults))))))
      (interop_port [''device_interop''] (the (snd (sd_config_load host_store empty_fs (Some sd_config_defaults))))) os_table =
      (SD_OK, Some 3, ftc)"
    using connect_good by blast
  show ?thesis unfolding sample_log [symmetric]
  proof (rule interop_main_reports [where afs = "ai_fields (codes ''Hi'')" and bs = speech_fields and m = "[0x7B]"
        and rest = "[]" and rate = 24000, OF _ _ _ _ _ _ _ os_table_fine c])
    show "answers (ai_fields (codes ''Hi'')) (codes ''Hi'')" by (rule hi_answers)
    show "announces speech_fields [1, 2, 3, 4] 24000 1" by (rule speech_announced)
  qed (simp_all add: sample_env_ok spoken_sock_def sample_chunks numbered_Cons encode_frame_def SD_CHUNK_SIZE_def)
qed

end
