(* ===== verification/EspTurn.thy ===== *)
theory EspTurn
  imports Esp
begin

text \<open>
  A complete turn on the hardware: the device application of \<open>Turn\<close> over the Wi-Fi backend, the
  camera driver and the I2S driver of \<open>Esp\<close>. The vendor's libraries stay parameters; what is shown
  is which of their calls are made, in which order and with which arguments.
\<close>

lemma jpeg_names_fit:
  assumes "length i < 50" "length d < 2 ^ 32"
  shows "length (image_begin_json i (length d) (length (chunked d)) (sd_sha256_hex d (length d)) ''image/jpeg'') < 256"
    and "length (image_end_json i) < 128"
proof -
  have chunks: "(4095 + n) div 4096 \<le> Suc n" for n :: nat
  proof -
    have "4095 + n < Suc (Suc n) * 4096" by simp
    then have "(4095 + n) div 4096 < Suc (Suc n)" by (rule less_mult_imp_div_less)
    then show ?thesis by simp
  qed
  have "length (decimal (length d)) \<le> 10"
    using decimal_length [of "length d" 9] assms(2) by simp
  moreover have "length (chunked d) \<le> length d + 1"
    by (simp add: length_chunked chunk_count_def SD_CHUNK_SIZE_def Let_def chunks)
  then have "length (decimal (length (chunked d))) \<le> 10"
    using decimal_length [of "length (chunked d)" 9] assms(2) by simp
  ultimately show "length (image_begin_json i (length d) (length (chunked d)) (sd_sha256_hex d (length d)) ''image/jpeg'') < 256"
    using assms(1) by (simp add: image_begin_json_def)
  show "length (image_end_json i) < 128" using assms(1) by (simp add: image_end_json_def)
qed

text \<open>A frame in the JPEG format is handed over as it is, and given back to the library.\<close>

lemma esp_captures:
  assumes "SUDONIT_CAMERA_DRIVER b" "s_inited h" "s_fb h = None"
    and "esp_camera_fb_get d (lib h) = (Some fb, l)" "fb_format fb = ''PIXFORMAT_JPEG''"
  obtains img h1 h2 where "h_capture (esp_hal b d) h zero_image = (SD_OK, img, h1)" "img_data img = Mem (fb_buf fb)"
    "media_type img = Some ''image/jpeg''" "h_release (esp_hal b d) h1 img = (img\<lparr>img_data := Null 0\<rparr>, h2)"
    "h2 = h\<lparr>lib := esp_camera_fb_return d l fb, calls := [Fb_return, Fb_get] @ calls h\<rparr>"
proof -
  have "h\<lparr>lib := a, s_fb := None\<rparr> = h\<lparr>lib := a\<rparr>" for a using assms(3) by (cases h) simp
  then show ?thesis using assms by (intro that) (auto simp: esp_hal_def esp_cam_capture_def esp_cam_release_def esp_fb_return_def Let_def)
qed

text \<open>
  The library's calls for a speech of \<open>ch\<close> channels at \<open>rate\<close>: a channel is created, set up with the
  pins and the format, enabled and written in one call.
\<close>

definition speaks :: "'d drivers \<Rightarrow> 'd \<Rightarrow> byte list \<Rightarrow> nat \<Rightarrow> nat \<Rightarrow> 'd \<Rightarrow> bool" where
  "speaks d l pcm rate ch l' \<longleftrightarrow>
     (case i2s_new_channel d l of (ok1, l1) \<Rightarrow>
      case i2s_channel_init_std_mode d l1 (audio_config (of_nat rate) (of_nat ch)) of (ok2, l2) \<Rightarrow>
      case i2s_channel_enable d l2 of (ok3, l3) \<Rightarrow>
        ok1 \<and> ok2 \<and> ok3 \<and> i2s_channel_write d l3 pcm = (True, length pcm, l'))"

lemma esp_speaks:
  assumes "SUDONIT_AUDIO_DRIVER b" "\<not> s_tx h" "speaks d (lib h) pcm rate ch l'"
    and "0 < rate" "rate < 2 ^ 32" "ch = 1 \<or> ch = 2" "pcm \<noteq> []" "2 * ch dvd length pcm"
  shows "\<exists>h'. played (esp_hal b d) h pcm rate ch = (SD_OK, h') \<and> lib h' = l' \<and> s_fb h' = s_fb h \<and>
    calls h' = [Chan_write (length pcm) (length pcm), Chan_new] @ calls h"
proof -
  have r: "(of_nat rate :: u32) \<noteq> 0"
  proof
    assume "(of_nat rate :: u32) = 0"
    then have "unat (of_nat rate :: u32) = 0" by simp
    then show False using assms(4,5) by (simp add: unsigned_of_nat take_bit_nat_eq_self)
  qed
  have c: "(of_nat ch :: 8 word) \<noteq> 0" "\<not> (of_nat ch :: 8 word) > 2" "unat (of_nat ch :: 8 word) = ch"
    using assms(6) by auto
  have n: "length pcm div (2 * ch) * ch * 2 = length pcm"
    using assms(8) by (metis dvd_div_mult_self mult.assoc mult.commute)
  have z: "length pcm div (2 * ch) \<noteq> 0"
  proof
    assume "length pcm div (2 * ch) = 0"
    then have "length pcm = 0" using n by (simp only: mult_0)
    with assms(7) show False by simp
  qed
  show ?thesis
    using assms(1-3) r c n z
    by (auto simp: played_def esp_hal_def esp_audio_defs speaks_def Let_def split: prod.splits)
qed


section \<open>Witness\<close>

text \<open>Libraries that never fail; their state is what the amplifier was sent.\<close>

definition recording_drivers :: "byte list drivers" where
  "recording_drivers =
     \<lparr>esp_camera_init = (\<lambda>l c. (True, l)),
      esp_camera_fb_get = (\<lambda>l. (Some \<lparr>fb_buf = [0xFF, 0xD8], fb_width = 800, fb_height = 600, fb_format = ''PIXFORMAT_JPEG''\<rparr>, l)),
      esp_camera_fb_return = (\<lambda>l fb. l), i2s_new_channel = (\<lambda>l. (True, l)),
      i2s_channel_init_std_mode = (\<lambda>l c. (True, l)), i2s_channel_enable = (\<lambda>l. (True, l)),
      i2s_channel_disable = (\<lambda>l. l), i2s_del_channel = (\<lambda>l. l),
      i2s_channel_write = (\<lambda>l bs. (True, length bs, l @ bs)), camera_code = (\<lambda>l. 0), sensor_pid = (\<lambda>l. Some 0x5640),
      i2s_code = (\<lambda>l. 0)\<rparr>"

definition hardware_turn :: "(sock option, byte list esp) turn" where
  "hardware_turn = \<lparr>conn = Some spoken_sock, response = Some (replicate 8 NUL), metrics = None,
     dev = (esp_boot [])\<lparr>s_inited := True\<rparr>, turn_log = []\<rparr>"


end
