(* ===== verification/Spec2Isabelle.thy ===== *)
theory Spec2Isabelle
  imports Sha256_Vectors Mic Boot EspTurn
begin

text \<open>
  Verification of the firmware of the Sudonit smart glasses (\<open>firmware/\<close>, C): the protocol library,
  the configuration, the hardware abstraction with its host and ESP32 backends, the device
  application and the entry points. The glasses capture an image, stream it to a phone, receive the
  answer and the rendered speech, and play it; what can go wrong on the way is a peer that sends
  anything, a network that splits, stalls and drops, memory that runs out, and storage that is torn.

  How the parts depend on each other, and which theory models which files (below
  \<open>firmware/src\<close> and \<open>firmware/components/protocol\<close>):

  \<^item> \<open>Prelude\<close>: C strings and buffers, \<open>snprintf\<close>, big-endian numbers, decimal text, with the
    lemmas every component uses. \<open>Core\<close>: error codes, the log filter and lines (\<open>core/\<close>).
  \<^item> \<open>Sha256\<close>, \<open>Sha256_Vectors\<close>: \<open>sha256.c\<close>; the transform on 32-bit words equals FIPS 180-4.
  \<^item> \<open>Transport\<close>: the transport interface as the locale \<open>transport_hal\<close> (\<open>incoming\<close>: the bytes still
    to be delivered, \<open>sent\<close>: the bytes on the wire) and the loops of \<open>transport_tcp.c\<close>, which
    interpret it. The kernel is a script of events (partial reads and writes, timeouts, failures).
    \<open>Connect\<close>: opening and closing with a table of descriptors, the modes and timeouts of the
    sockets and the time spent connecting. \<open>Wifi\<close>: \<open>transport_wifi.c\<close>, shown to behave as the host's.
  \<^item> \<open>Framing\<close>: \<open>framing.c\<close> against the frame format (\<open>parse_frame\<close>, \<open>encode_frame\<close>).
  \<^item> \<open>Json\<close>: \<open>json.c\<close>, with the phone's printer as the reference side of the round trips.
  \<^item> \<open>Messages\<close>: \<open>messages.c\<close>, the image upload, the classification of control messages and the
    reassembly of audio, proved in the context of \<open>transport_hal\<close>.
  \<^item> \<open>Config\<close>: \<open>config.c\<close> over the locale \<open>config_store\<close> and the file store
    \<open>config_store_host.c\<close> that interprets it; \<open>Nvs\<close>: \<open>config_store_nvs.c\<close> over the NVS library.
  \<^item> \<open>Provisioning\<close>: the console \<open>provisioning.c\<close>, whose dirty flag is proved honest over the locale
    \<open>reliable_store\<close> (a \<open>config_store\<close> whose writes succeed); \<open>Cli\<close>: the tools \<open>main_config.c\<close>
    and \<open>main_provision.c\<close>.
  \<^item> \<open>Hal\<close>: the peripherals as the locale \<open>device_hal\<close> and the mocks (\<open>hal/mock/\<close>) that interpret it.
    \<open>Device\<close>: \<open>device.c\<close> over any peripherals and any transport (locale \<open>device\<close>), interpreted on
    the mocks over TCP. \<open>Turn\<close>: a complete turn (locale \<open>turn\<close>, with the links that accept every
    write as \<open>ready_link\<close>) and the properties of the device application.
  \<^item> \<open>Esp\<close>: the ESP32 drivers and stubs (\<open>hal/esp32/\<close>), interpreting \<open>device_hal\<close> for every build
    and any behaviour of the vendor's libraries. \<open>EspTurn\<close>: a complete turn on these drivers over
    Wi-Fi, down to the calls of the libraries. \<open>Net\<close>: the Wi-Fi bring-up \<open>net_esp.c\<close> as a state
    machine.
  \<^item> \<open>Mic\<close>: the microphone mock, over any arithmetic of doubles.
  \<^item> \<open>Boot\<close>: \<open>app_main.c\<close> with its log, its data plane and its console, \<open>main_host.c\<close> and
    \<open>main_interop.c\<close>, which compose all of it.

  Conventions. An operation keeps the name of its function; where two backends define the same
  name the second has a prefix (\<open>wifi_\<close>, \<open>mock_\<close>, \<open>esp_\<close>, \<open>stub_\<close>, \<open>nvs_\<close>). Out-parameters are
  part of the result, NULL is \<open>None\<close> (or \<open>Null n\<close> for a span of bytes with its stated length),
  static variables and structs are records threaded through the calls. Undefined behaviour is a value
  \<open>None\<close>: an access outside a buffer, a division by zero, a NULL event group; the safety properties
  say where it cannot happen and the error properties where it can. A loop that might not end
  (\<open>uplink_loop\<close>) is a \<open>partial_function\<close>, and that it ends is a property; all other loops are
  structural or have a measure, so there is no fuel. Words keep their width where arithmetic can wrap:
  \<open>uint32_t\<close> sizes and clocks, the 64-bit offset of an audio chunk, 16-bit ports, 8-bit channels.

  What the groups of lemmas show. Transport and framing: exactness of reads, whole or prefix writes,
  the verdict for every byte stream, the round trip. JSON and messages: what the readers return for
  the phone's messages, memory safety for every message, the bytes of an upload, the delivery of
  audio. Configuration: well-formedness after every load and operation, round trips through both
  stores with torn writes, secrecy of the password at the console. Device: the turn ends, releases its
  resources on every path, is memory safe when the texts are escaped as JSON says (and where it is not
  otherwise), and does what it should when the phone does. Boot: the
  composition ends and leaks nothing, what is provisioned at the console is what the next boot runs
  with, and the log does not depend on the password.

  Vendor code is a parameter: the resolver and sockets (\<open>resolver\<close>, \<open>address_env\<close>, the event
  scripts), \<open>malloc\<close>, the clock and uninitialised memory (\<open>env\<close>, constrained by \<open>env_ok\<close> to the sizes
  of the arrays), the camera and I2S libraries (\<open>drivers\<close>), ESP-IDF networking (\<open>netlib\<close>) and NVS
  (\<open>nvs_lib\<close>, whose documented behaviour is the hypothesis \<open>nvs_documented\<close>; \<open>flash_lib\<close>), and the
  arithmetic of doubles (\<open>double_ops\<close>).

  The log. The operations of the application, the configuration and the entry points return the
  calls of the logger they make, in order (\<open>log_line\<close>), and \<open>log_text\<close> is what \<open>sd_log\<close> writes for
  them; the drivers and the Wi-Fi bring-up keep theirs in their state (\<open>drv_log\<close>, \<open>net_log\<close>), from
  where their callers take them in (\<open>backend_log\<close>). A line that prints the text of a message reads it
  up to its NUL, so it belongs to the memory safety of the turn (\<open>printable\<close>).

  Not modelled. Concurrency: the event handler of \<open>net_esp.c\<close> runs between the steps of the waiting
  task, not inside them. The phone server, the tools and the evaluation are Python and enter only as the message format.
\<close>

end
